theory Spec2Isabelle
  imports Complex_Main "HOL-Library.Char_ord" "HOL-Library.List_Lexorder"
    "HOL-Library.Product_Lexorder"
begin

section \<open>Shared data model\<close>

text \<open>
  An oriented segment is the Python pair \<open>(v_name, v_end)\<close>: a segment name and a
  strand, \<open>True\<close> for forward. A path is a list (or tuple) of oriented segments.
  Every exception the modelled code can raise is a value of \<open>py_error\<close>, and a
  function that can raise returns \<open>py_error + 'a\<close>.
\<close>

type_synonym oriented = "string \<times> bool"
type_synonym path = "oriented list"

datatype py_error =
  AssertionError | IndexError | KeyError | ZeroDivisionError | ValueError | TypeError
  | UnknownVertex string

section \<open>GraphAlignRecords: parsing the path column of a GAF record\<close>

text \<open>
  \<open>parse_gaf_path\<close> tokenises \<open>path_str\<close> with
  \<^verbatim>\<open>re.findall(r".[^\s><]*", self.path_str)\<close>. A character of a \<open>string\<close> stands for
  the code point with the same number (0 to 255). \<open>is_space\<close> is the class \<^verbatim>\<open>\s\<close> on these
  code points; \<^verbatim>\<open>.\<close> matches every character but the line feed.
\<close>

definition is_space :: "char \<Rightarrow> bool" where
  "is_space c = ((of_char c :: nat) \<in> {9, 10, 11, 12, 13, 28, 29, 30, 31, 32, 133, 160})"

definition in_segment_body :: "char \<Rightarrow> bool" where
  "in_segment_body c = (\<not> is_space c \<and> c \<noteq> CHR ''>'' \<and> c \<noteq> CHR ''<'')"

text \<open>
  The scan of \<open>findall\<close>: at a line feed the pattern cannot start and the scan moves one
  character on; anywhere else the match takes that character and the longest run of body
  characters after it, and the scan goes on behind the match.
\<close>

function findall_segments :: "string \<Rightarrow> string list" where
  "findall_segments [] = []"
| "findall_segments (c # cs) =
     (if c = CHR 0x0A then findall_segments cs
      else (c # takeWhile in_segment_body cs) # findall_segments (dropWhile in_segment_body cs))"
  by pat_completeness auto
termination
  by (relation "measure length") (auto simp: length_dropWhile_le less_Suc_eq_le)

text \<open>\<open>s.split(":")\<close> for the one-character separator, and its element 0.\<close>

fun split_at :: "char \<Rightarrow> string \<Rightarrow> string list" where
  "split_at sep [] = [[]]"
| "split_at sep (c # cs) =
     (if c = sep then [] # split_at sep cs
      else (case split_at sep cs of [] \<Rightarrow> [[c]] | w # ws \<Rightarrow> (c # w) # ws))"

definition item0 :: "'a list \<Rightarrow> py_error + 'a" where
  "item0 xs = (case xs of [] \<Rightarrow> Inl IndexError | x # _ \<Rightarrow> Inr x)"

text \<open>
  The loop of \<open>parse_gaf_path\<close> over the tokens, with \<open>path_list\<close> as accumulator.
  \<open>segment[0]\<close> raises on an empty token, \<open>segment[1:]\<close> does not.
\<close>

fun parse_gaf_loop :: "string list \<Rightarrow> path \<Rightarrow> py_error + path" where
  "parse_gaf_loop [] path_list = Inr path_list"
| "parse_gaf_loop (segment # rest) path_list =
     (case item0 segment of
        Inl e \<Rightarrow> Inl e
      | Inr c0 \<Rightarrow>
          if c0 = CHR ''>'' then
            (case item0 (split_at CHR '':'' (drop 1 segment)) of
               Inl e \<Rightarrow> Inl e
             | Inr name \<Rightarrow> parse_gaf_loop rest (path_list @ [(name, True)]))
          else if c0 = CHR ''<'' then
            (case item0 (split_at CHR '':'' (drop 1 segment)) of
               Inl e \<Rightarrow> Inl e
             | Inr name \<Rightarrow> parse_gaf_loop rest (path_list @ [(name, False)]))
          else
            (case item0 (split_at CHR '':'' segment) of
               Inl e \<Rightarrow> Inl e
             | Inr name \<Rightarrow> parse_gaf_loop rest (path_list @ [(name, True)])))"

definition parse_gaf_path :: "string \<Rightarrow> py_error + path" where
  "parse_gaf_path path_str = parse_gaf_loop (findall_segments path_str) []"

text \<open>What one token becomes, written after the claim rather than after the loop.\<close>

definition segment_name :: "string \<Rightarrow> string" where
  "segment_name body = takeWhile (\<lambda>c. c \<noteq> CHR '':'') body"

definition oriented_of_token :: "string \<Rightarrow> oriented" where
  "oriented_of_token tok =
     (if hd tok = CHR ''>'' then (segment_name (tl tok), True)
      else if hd tok = CHR ''<'' then (segment_name (tl tok), False)
      else (segment_name tok, True))"

section \<open>The assembly graph\<close>

text \<open>
  \<open>self.graph\<close> is an object of the class \<open>Assembly\<close>, which is not among the source
  files. Its data is \<open>vertex_info\<close>, an insertion-ordered dictionary from segment names to
  vertices with a length, a coverage and, for each of the two ends, a collection of
  connected (name, end) pairs (given here in its iteration order). Its methods are fields
  of the record: every function below that calls one takes it from the graph it is given,
  and what a theorem needs of a method is a hypothesis of that theorem.
\<close>

record vertex =
  len :: int
  cov :: real
  connections :: "bool \<Rightarrow> oriented list"

record assembly =
  vertex_info :: "(string \<times> vertex) list"
  get_standardized_path :: "path \<Rightarrow> path"
  contain_path :: "path \<Rightarrow> bool"
  reverse_path :: "path \<Rightarrow> path"
  roll_path :: "path \<Rightarrow> path"
  is_circular_path :: "path \<Rightarrow> bool"
  get_standardized_circular_path :: "path \<Rightarrow> path"
  get_path_length :: "path \<Rightarrow> int"
  get_path_internal_length :: "path \<Rightarrow> int"
  is_fully_covered_by :: "path \<Rightarrow> bool"

definition vertex_names :: "assembly \<Rightarrow> string list" where
  "vertex_names G = map fst (vertex_info G)"

text \<open>Python's \<open>xs[i:j]\<close> for \<open>0 \<le> i\<close> and \<open>0 \<le> j\<close>: never raises, clips at the end.\<close>

definition py_slice :: "nat \<Rightarrow> nat \<Rightarrow> 'a list \<Rightarrow> 'a list" where
  "py_slice i j xs = take (j - i) (drop i xs)"

text \<open>
  Modelled from the spec: the methods of \<open>Assembly\<close> that the concrete graphs further down
  use. \<open>reverse(p)\<close> reverses the order and flips every strand. A path is circular iff the
  reverse of its last oriented segment appears in the forward-neighbor set of its first
  oriented segment. Standardisation picks, among all rotations of \<open>p\<close> and of
  \<open>reverse(p)\<close>, the lexicographically smallest (Python orders the pairs by name, then
  \<open>False < True\<close>). The length of a path is the sum of the lengths of its segments.
\<close>

definition spec_reverse_path :: "path \<Rightarrow> path" where
  "spec_reverse_path p = map (\<lambda>(v_name, v_end). (v_name, \<not> v_end)) (rev p)"

definition spec_neighbors :: "(string \<times> vertex) list \<Rightarrow> oriented \<Rightarrow> oriented list" where
  "spec_neighbors vi o_seg =
     (case map_of vi (fst o_seg) of None \<Rightarrow> [] | Some v \<Rightarrow> connections v (snd o_seg))"

definition spec_is_circular_path :: "(string \<times> vertex) list \<Rightarrow> path \<Rightarrow> bool" where
  "spec_is_circular_path vi p =
     (p \<noteq> [] \<and> (fst (last p), \<not> snd (last p)) \<in> set (spec_neighbors vi (hd p)))"

definition spec_standardize_circular :: "path \<Rightarrow> path" where
  "spec_standardize_circular p =
     (let rotations = (\<lambda>q. map (\<lambda>k. rotate k q) [0..<length q])
      in fold min (rotations p @ rotations (spec_reverse_path p)) p)"

definition spec_get_path_length :: "(string \<times> vertex) list \<Rightarrow> path \<Rightarrow> int" where
  "spec_get_path_length vi p =
     sum_list (map (\<lambda>(v_name, v_end). case map_of vi v_name of None \<Rightarrow> 0 | Some v \<Rightarrow> len v) p)"

text \<open>
  Modelled from the spec: the other path helpers of the graph adapter. \<open>contain_path\<close>: all
  consecutive transitions exist as edges (the extension step of the traverser fixes the
  reading of an edge: from \<open>(v, e)\<close> the walk goes on to \<open>(n, \<not> e')\<close> for every \<open>(n, e')\<close>
  among the connections of \<open>v\<close> at its end \<open>e\<close>). \<open>is_fully_covered_by\<close>: every graph segment
  appears at least once. \<open>get_path_internal_length\<close> excludes the two terminal segments.
  A linear path is standardised to the smaller of the path and its reverse. The spec does
  not say what \<open>roll_path\<close> computes: \<open>spec_assembly\<close> takes it as an argument.
\<close>

fun spec_contain_path :: "(string \<times> vertex) list \<Rightarrow> path \<Rightarrow> bool" where
  "spec_contain_path vi [] = True"
| "spec_contain_path vi [x] = (map_of vi (fst x) \<noteq> None)"
| "spec_contain_path vi (x # y # rest) =
     ((fst y, \<not> snd y) \<in> set (spec_neighbors vi x) \<and> spec_contain_path vi (y # rest))"

definition spec_is_fully_covered_by :: "(string \<times> vertex) list \<Rightarrow> path \<Rightarrow> bool" where
  "spec_is_fully_covered_by vi p = (set (map fst vi) \<subseteq> set (map fst p))"

definition spec_get_path_internal_length :: "(string \<times> vertex) list \<Rightarrow> path \<Rightarrow> int" where
  "spec_get_path_internal_length vi p = spec_get_path_length vi (butlast (tl p))"

definition spec_standardize_path :: "path \<Rightarrow> path" where
  "spec_standardize_path p = min p (spec_reverse_path p)"

definition spec_assembly :: "(string \<times> vertex) list \<Rightarrow> (path \<Rightarrow> path) \<Rightarrow> assembly" where
  "spec_assembly vi roll =
     \<lparr>vertex_info = vi,
      get_standardized_path = spec_standardize_path,
      contain_path = spec_contain_path vi,
      reverse_path = spec_reverse_path,
      roll_path = roll,
      is_circular_path = spec_is_circular_path vi,
      get_standardized_circular_path = spec_standardize_circular,
      get_path_length = spec_get_path_length vi,
      get_path_internal_length = spec_get_path_internal_length vi,
      is_fully_covered_by = spec_is_fully_covered_by vi\<rparr>"

text \<open>
  Two concrete graphs. \<open>loop_graph\<close> is the cycle of \<open>a\<close> and \<open>b\<close> (scenario S1 of the spec,
  segments of length 100 and coverage 30): the walk leaves \<open>a\<close> at either end into \<open>b\<close>
  and \<open>b\<close> at either end into \<open>a\<close>. \<open>dead_end_graph\<close> is the linear graph of \<open>a\<close>, \<open>b\<close>
  and \<open>c\<close> (scenario S4), with no edge back from \<open>c\<close> to \<open>a\<close>.
\<close>

definition loop_vertices :: "(string \<times> vertex) list" where
  "loop_vertices =
     [(''a'', \<lparr>len = 100, cov = 30,
              connections = (\<lambda>e. if e then [(''b'', False)] else [(''b'', True)])\<rparr>),
      (''b'', \<lparr>len = 100, cov = 30,
              connections = (\<lambda>e. if e then [(''a'', False)] else [(''a'', True)])\<rparr>)]"

definition loop_graph :: assembly where
  "loop_graph = spec_assembly loop_vertices (\<lambda>p. p)"

definition dead_end_vertices :: "(string \<times> vertex) list" where
  "dead_end_vertices =
     [(''a'', \<lparr>len = 100, cov = 30,
              connections = (\<lambda>e. if e then [(''b'', False)] else [])\<rparr>),
      (''b'', \<lparr>len = 100, cov = 30,
              connections = (\<lambda>e. if e then [(''c'', False)] else [(''a'', True)])\<rparr>),
      (''c'', \<lparr>len = 100, cov = 30,
              connections = (\<lambda>e. if e then [] else [(''b'', True)])\<rparr>)]"

definition dead_end_graph :: assembly where
  "dead_end_graph = spec_assembly dead_end_vertices (\<lambda>p. p)"

section \<open>PathGeneratorGraphAlignment: the state of the generator\<close>

text \<open>
  The fields of \<open>self\<close> that the modelled methods read or write. A method that assigns to a
  field takes the generator and returns the new one.
\<close>

record gaf_record =
  gaf_path :: path
  p_align_len :: int

record generator =
  alignment :: "gaf_record list"
  num_search :: int
  force_circular :: bool
  hetero_chromosome :: bool
  use_alignment_cov :: bool
  local_max_alignment_len :: "int option"
  read_paths :: "path list"
  read_paths_counter :: "path \<rightharpoonup> nat"
  starting_subpath_to_readpaths :: "path \<rightharpoonup> (nat \<times> bool) set"
  middle_subpath_to_readpaths :: "path \<rightharpoonup> (nat \<times> bool) set"
  read_paths_counter_indexed :: bool
  contig_coverages :: "(string \<times> real) list"
  components :: "path list"
  components_counts :: "path \<rightharpoonup> nat"

text \<open>\<open>__init__\<close>: the fields "to be generated" start empty.\<close>

definition init_generator :: "gaf_record list \<Rightarrow> int \<Rightarrow> bool \<Rightarrow> bool \<Rightarrow> bool \<Rightarrow> generator" where
  "init_generator graph_alignment n_search circular hetero alignment_cov =
     \<lparr>alignment = graph_alignment, num_search = n_search, force_circular = circular,
      hetero_chromosome = hetero, use_alignment_cov = alignment_cov,
      local_max_alignment_len = None, read_paths = [], read_paths_counter = Map.empty,
      starting_subpath_to_readpaths = Map.empty, middle_subpath_to_readpaths = Map.empty,
      read_paths_counter_indexed = False, contig_coverages = [], components = [],
      components_counts = Map.empty\<rparr>"

section \<open>index_readpaths_subpaths\<close>

text \<open>The body of the loop over the alignment records, for one record that is kept.\<close>

definition count_read_path :: "path \<Rightarrow> generator \<Rightarrow> generator" where
  "count_read_path this_read_path s =
     (case read_paths_counter s this_read_path of
        Some c \<Rightarrow> s\<lparr>read_paths_counter := (read_paths_counter s)(this_read_path \<mapsto> c + 1)\<rparr>
      | None \<Rightarrow> s\<lparr>read_paths_counter := (read_paths_counter s)(this_read_path \<mapsto> 1),
                   read_paths := read_paths s @ [this_read_path]\<rparr>)"

text \<open>
  The loop over \<open>self.alignment\<close>; the second component is \<open>alignment_lengths\<close>. The source
  writes the loop twice, once for each value of \<open>filter_by_graph\<close>.
\<close>

fun summarize_alignment ::
  "assembly \<Rightarrow> bool \<Rightarrow> gaf_record list \<Rightarrow> generator \<times> int list \<Rightarrow> generator \<times> int list" where
  "summarize_alignment G filter_by_graph [] acc = acc"
| "summarize_alignment G filter_by_graph (r # rs) (s, alignment_lengths) =
     (let this_read_path = get_standardized_path G (gaf_path r)
      in if filter_by_graph then
           (if contain_path G this_read_path
            then summarize_alignment G filter_by_graph rs
                   (count_read_path this_read_path s, alignment_lengths @ [p_align_len r])
            else summarize_alignment G filter_by_graph rs (s, alignment_lengths))
         else summarize_alignment G filter_by_graph rs
                (count_read_path this_read_path s, alignment_lengths @ [p_align_len r]))"

text \<open>
  The calls of \<open>__index_start_subpath\<close> and \<open>__index_middle_subpath\<close> that the nested
  loops make for one read path, in the order of the source.
\<close>

datatype index_call = IndexStart path nat bool | IndexMiddle path nat bool

definition middle_calls :: "path \<Rightarrow> path \<Rightarrow> nat \<Rightarrow> nat \<Rightarrow> nat \<Rightarrow> index_call list" where
  "middle_calls forward_read_path_tuple reverse_read_path_tuple read_id read_contig_num sub_contig_num =
     concat (map (\<lambda>go_sub.
        [IndexMiddle (py_slice go_sub (go_sub + sub_contig_num) forward_read_path_tuple) read_id True,
         IndexMiddle (py_slice go_sub (go_sub + sub_contig_num) reverse_read_path_tuple) read_id False])
       [1..<read_contig_num - sub_contig_num])"

definition read_index_calls :: "assembly \<Rightarrow> nat \<Rightarrow> path \<Rightarrow> index_call list" where
  "read_index_calls G read_id this_read_path =
     (let read_contig_num = length this_read_path;
          forward_read_path_tuple = this_read_path;
          reverse_read_path_tuple = reverse_path G this_read_path
      in concat (map (\<lambda>sub_contig_num.
           [IndexStart (py_slice 0 sub_contig_num forward_read_path_tuple) read_id True,
            IndexStart (py_slice 0 sub_contig_num reverse_read_path_tuple) read_id False]
           @ middle_calls forward_read_path_tuple reverse_read_path_tuple read_id read_contig_num
               sub_contig_num)
          [1..<read_contig_num]))"

definition add_to_index ::
  "(path \<rightharpoonup> (nat \<times> bool) set) \<Rightarrow> path \<Rightarrow> nat \<Rightarrow> bool \<Rightarrow> (path \<rightharpoonup> (nat \<times> bool) set)" where
  "add_to_index m subpath read_id strand =
     (case m subpath of
        Some ids \<Rightarrow> m(subpath \<mapsto> insert (read_id, strand) ids)
      | None \<Rightarrow> m(subpath \<mapsto> {(read_id, strand)}))"

fun apply_index_call :: "generator \<Rightarrow> index_call \<Rightarrow> generator" where
  "apply_index_call s (IndexStart subpath read_id strand) =
     s\<lparr>starting_subpath_to_readpaths :=
         add_to_index (starting_subpath_to_readpaths s) subpath read_id strand\<rparr>"
| "apply_index_call s (IndexMiddle subpath read_id strand) =
     s\<lparr>middle_subpath_to_readpaths :=
         add_to_index (middle_subpath_to_readpaths s) subpath read_id strand\<rparr>"

definition all_index_calls :: "assembly \<Rightarrow> path list \<Rightarrow> index_call list" where
  "all_index_calls G rps =
     concat (map (\<lambda>(read_id, this_read_path). read_index_calls G read_id this_read_path)
                 (enumerate 0 rps))"

definition index_readpaths_subpaths :: "assembly \<Rightarrow> bool \<Rightarrow> generator \<Rightarrow> py_error + generator" where
  "index_readpaths_subpaths G filter_by_graph s =
     (let (s1, alignment_lengths) =
            summarize_alignment G filter_by_graph (alignment s) (s\<lparr>read_paths_counter := Map.empty\<rparr>, []);
          s2 = foldl apply_index_call s1 (all_index_calls G (read_paths s1))
      in case alignment_lengths of
           [] \<Rightarrow> Inl IndexError
         | _ \<Rightarrow> Inr (s2\<lparr>local_max_alignment_len := Some (last (sort alignment_lengths)),
                         read_paths_counter_indexed := True\<rparr>))"



text \<open>The records that the loop over the alignment keeps.\<close>

definition kept_records :: "assembly \<Rightarrow> bool \<Rightarrow> gaf_record list \<Rightarrow> gaf_record list" where
  "kept_records G filter_by_graph rs =
     filter (\<lambda>r. \<not> filter_by_graph \<or> contain_path G (get_standardized_path G (gaf_path r))) rs"

section \<open>Coverage statistics of a walk\<close>

text \<open>
  Coverages, means and likelihoods are floating-point numbers in the source; here they are
  real numbers, so that a sum does not depend on the order of its terms. Messages to the
  logger are not part of the model.
\<close>

definition py_bind :: "py_error + 'a \<Rightarrow> ('a \<Rightarrow> py_error + 'b) \<Rightarrow> py_error + 'b" where
  "py_bind m f = (case m of Inl e \<Rightarrow> Inl e | Inr x \<Rightarrow> f x)"

text \<open>\<open>d[k]\<close> on a dictionary given as an association list.\<close>

definition lookup :: "('k \<times> 'v) list \<Rightarrow> 'k \<Rightarrow> py_error + 'v" where
  "lookup d k = (case map_of d k of None \<Rightarrow> Inl KeyError | Some v \<Rightarrow> Inr v)"

text \<open>\<open>__check_path\<close>: the assertion, then the first name that the graph does not have.\<close>

definition check_path :: "assembly \<Rightarrow> path \<Rightarrow> py_error + unit" where
  "check_path G p =
     (if p = [] then Inl AssertionError
      else case find (\<lambda>v_name. v_name \<notin> set (vertex_names G)) (map fst p) of
             Some v_name \<Rightarrow> Inl (UnknownVertex v_name)
           | None \<Rightarrow> Inr ())"

text \<open>
  \<open>{v_n: v_names.count(v_n) for v_n in set(v_names)}\<close>: the dictionary of multiplicities,
  one entry for each name of the path.
\<close>

definition name_counts :: "path \<Rightarrow> (string \<times> nat) list" where
  "name_counts p =
     (let v_names = map fst p
      in map (\<lambda>v_n. (v_n, count_list v_names v_n)) (remdups v_names))"

text \<open>
  The loop \<open>for del_n in del_names\<close> of \<open>__get_cov_mean\<close>. Where the count to delete exceeds
  the count of the path the source calls \<open>logger.error\<close> and goes on with the next name.
\<close>

fun exclude_counts :: "(string \<times> nat) list \<Rightarrow> (string \<times> nat) list \<Rightarrow> py_error + (string \<times> nat) list" where
  "exclude_counts [] v_names = Inr v_names"
| "exclude_counts ((del_n, del_c) # rest) v_names =
     (if del_c > (case map_of v_names del_n of None \<Rightarrow> 0 | Some c \<Rightarrow> c)
      then exclude_counts rest v_names
      else case map_of v_names del_n of
             None \<Rightarrow> Inl KeyError
           | Some c \<Rightarrow>
               if c - del_c = 0
               then exclude_counts rest (filter (\<lambda>(n, k). n \<noteq> del_n) v_names)
               else exclude_counts rest
                      (map (\<lambda>(n, k). if n = del_n then (n, c - del_c) else (n, k)) v_names))"

text \<open>
  \<open>np.average(a, weights=w)\<close>: numpy raises ZeroDivisionError when the weights sum to
  zero, also for two empty lists.
\<close>

definition np_average :: "real list \<Rightarrow> real list \<Rightarrow> py_error + real" where
  "np_average a w =
     (if sum_list w = 0 then Inl ZeroDivisionError
      else Inr (sum_list (map2 (*) a w) / sum_list w))"

text \<open>The mean and, when \<open>return_std\<close> is set, the standard deviation from the same weights.\<close>

definition weighted_mean_std :: "real list \<Rightarrow> real list \<Rightarrow> bool \<Rightarrow> py_error + real \<times> real option" where
  "weighted_mean_std v_covers v_lengths return_std =
     py_bind (np_average v_covers v_lengths) (\<lambda>mean.
       if return_std then
         py_bind (np_average (map (\<lambda>c. (c - mean)\<^sup>2) v_covers) v_lengths) (\<lambda>var.
           Inr (mean, Some (sqrt var)))
       else Inr (mean, None))"

text \<open>The loop that fills \<open>v_covers\<close> and \<open>v_lengths\<close> of \<open>__get_cov_mean\<close>.\<close>

fun cover_terms ::
  "assembly \<Rightarrow> (string \<times> real) list \<Rightarrow> (string \<times> nat) list \<Rightarrow> py_error + (real list \<times> real list)" where
  "cover_terms G cc [] = Inr ([], [])"
| "cover_terms G cc ((v_name, c) # rest) =
     py_bind (lookup cc v_name) (\<lambda>coverage.
     py_bind (lookup (vertex_info G) v_name) (\<lambda>v.
     py_bind (cover_terms G cc rest) (\<lambda>(v_covers, v_lengths).
       Inr ((coverage / real c) # v_covers, real_of_int (len v * int c) # v_lengths))))"

definition get_cov_mean ::
  "assembly \<Rightarrow> (string \<times> real) list \<Rightarrow> path \<Rightarrow> path option \<Rightarrow> bool \<Rightarrow> py_error + real \<times> real option" where
  "get_cov_mean G cc p exclude_path return_std =
     py_bind (check_path G p) (\<lambda>_.
     py_bind (case exclude_path of
                None \<Rightarrow> Inr (name_counts p)
              | Some ex \<Rightarrow> if ex = [] then Inr (name_counts p)
                           else exclude_counts (name_counts ex) (name_counts p)) (\<lambda>v_names.
     py_bind (cover_terms G cc v_names) (\<lambda>(v_covers, v_lengths).
       weighted_mean_std v_covers v_lengths return_std)))"

text \<open>\<open>__get_cov_mean_of_single\<close>: only the names of the least multiplicity, unweighted by it.\<close>

fun single_terms ::
  "assembly \<Rightarrow> (string \<times> real) list \<Rightarrow> string list \<Rightarrow> py_error + (real list \<times> real list)" where
  "single_terms G cc [] = Inr ([], [])"
| "single_terms G cc (v_name # rest) =
     py_bind (lookup cc v_name) (\<lambda>coverage.
     py_bind (lookup (vertex_info G) v_name) (\<lambda>v.
     py_bind (single_terms G cc rest) (\<lambda>(v_covers, v_lengths).
       Inr (coverage # v_covers, real_of_int (len v) # v_lengths))))"

definition get_cov_mean_of_single ::
  "assembly \<Rightarrow> (string \<times> real) list \<Rightarrow> path \<Rightarrow> bool \<Rightarrow> py_error + real \<times> real option" where
  "get_cov_mean_of_single G cc p return_std =
     py_bind (check_path G p) (\<lambda>_.
       let v_names = name_counts p;
           min_cov = Min (set (map snd v_names));
           singles = map fst (filter (\<lambda>(v_n, v_c). v_c = min_cov) v_names)
       in py_bind (single_terms G cc singles) (\<lambda>(v_covers, v_lengths).
            weighted_mean_std v_covers v_lengths return_std))"

section \<open>__decompose_hetero_units\<close>

text \<open>
  Modelled from the spec: \<open>find_greatest_common_divisor\<close> of \<open>traversome.utils\<close>, which is
  not among the source files, computes the GCD of the per-segment counts.
\<close>

definition find_greatest_common_divisor :: "int list \<Rightarrow> int" where
  "find_greatest_common_divisor number_list = fold gcd number_list 0"

text \<open>\<open>get_v_counts\<close>: the count of every segment of the graph, in the order of \<open>vertex_info\<close>.\<close>

definition get_v_counts :: "assembly \<Rightarrow> string list \<Rightarrow> int list" where
  "get_v_counts G names = map (\<lambda>v_name. int (count_list names v_name)) (vertex_names G)"

text \<open>\<open>xs[i]\<close> for \<open>0 \<le> i\<close>, and \<open>v_to_id[v_name]\<close>, the position of a name in \<open>vertex_info\<close>.\<close>

definition py_item :: "'a list \<Rightarrow> nat \<Rightarrow> py_error + 'a" where
  "py_item xs i = (if i < length xs then Inr (xs ! i) else Inl IndexError)"

fun index_of :: "'a list \<Rightarrow> 'a \<Rightarrow> py_error + nat" where
  "index_of [] x = Inl KeyError"
| "index_of (y # ys) x = (if x = y then Inr 0 else py_bind (index_of ys x) (\<lambda>i. Inr (Suc i)))"

text \<open>\<open>int(a / b)\<close> on integers: the quotient, truncated towards zero.\<close>

definition py_int_div :: "int \<Rightarrow> int \<Rightarrow> py_error + int" where
  "py_int_div a b =
     (if b = 0 then Inl ZeroDivisionError else Inr (sgn a * sgn b * (\<bar>a\<bar> div \<bar>b\<bar>)))"

text \<open>\<open>xs[len(xs) - reseed_at:] + xs + xs[:unit_len]\<close>, for the names and for the path.\<close>

definition shuffled :: "nat \<Rightarrow> nat \<Rightarrow> 'a list \<Rightarrow> 'a list" where
  "shuffled reseed_at unit_len xs = drop (length xs - reseed_at) xs @ xs @ take unit_len xs"

text \<open>
  The test of one start: the sliding counts of the first unit, and the counts of the units
  1 to \<open>gcd - 1\<close> behind it.
\<close>

definition units_match :: "assembly \<Rightarrow> string list \<Rightarrow> int list \<Rightarrow> nat \<Rightarrow> nat \<Rightarrow> nat \<Rightarrow> int list \<Rightarrow> bool" where
  "units_match G v_list_shuffled unit_counts unit_len gcd_n try_start counts_check =
     (counts_check = unit_counts \<and>
      set (map (\<lambda>go_u. get_v_counts G (py_slice (try_start + unit_len * go_u)
                                               (try_start + unit_len * (go_u + 1)) v_list_shuffled)
                        = unit_counts) [1..<gcd_n]) = {True})"

text \<open>
  The loop \<open>for try_start in range(unit_len)\<close>; \<open>todo\<close> counts the starts that are left.
  The result is the start at which the loop breaks, if it does.
\<close>

fun search_start ::
  "assembly \<Rightarrow> string list \<Rightarrow> int list \<Rightarrow> nat \<Rightarrow> nat \<Rightarrow> nat \<Rightarrow> nat \<Rightarrow> int list \<Rightarrow> py_error + nat option" where
  "search_start G v_list_shuffled unit_counts unit_len gcd_n 0 try_start counts_check = Inr None"
| "search_start G v_list_shuffled unit_counts unit_len gcd_n (Suc todo) try_start counts_check =
     (if units_match G v_list_shuffled unit_counts unit_len gcd_n try_start counts_check
      then Inr (Some try_start)
      else
        py_bind (py_item v_list_shuffled try_start) (\<lambda>leaving.
        py_bind (index_of (vertex_names G) leaving) (\<lambda>i.
        py_bind (py_item v_list_shuffled (try_start + unit_len)) (\<lambda>entering.
        py_bind (index_of (vertex_names G) entering) (\<lambda>j.
          let c1 = counts_check[i := counts_check ! i - 1];
              c2 = c1[j := c1 ! j + 1]
          in search_start G v_list_shuffled unit_counts unit_len gcd_n todo (Suc try_start) c2)))))"

text \<open>The paths \<open>this_path\<close> of the last loop, before the test for circularity.\<close>

definition unit_blocks :: "path \<Rightarrow> nat \<Rightarrow> nat \<Rightarrow> nat \<Rightarrow> nat \<Rightarrow> path list" where
  "unit_blocks path_shuffled try_start unit_len unit_copy_num gcd_n =
     map (\<lambda>go_unit. py_slice (try_start + unit_len * unit_copy_num * go_unit)
                             (try_start + unit_len * unit_copy_num * (go_unit + 1)) path_shuffled)
         [0..<gcd_n div unit_copy_num]"

text \<open>
  \<open>min(max(int((self.local_max_alignment_len - 2) / unit_seq_len), 1), gcd)\<close>;
  \<open>local_max_alignment_len\<close> is still \<open>None\<close> before the index is built.
\<close>

definition get_unit_copy_num :: "int option \<Rightarrow> int \<Rightarrow> int \<Rightarrow> py_error + nat" where
  "get_unit_copy_num lmal unit_seq_len g =
     (case lmal of
        None \<Rightarrow> Inl TypeError
      | Some l \<Rightarrow> py_bind (py_int_div (l - 2) unit_seq_len) (\<lambda>q. Inr (nat (min (max q 1) g))))"

text \<open>
  The values that the method computes on its way: the GCD of the counts, the length of a
  unit, the start that the search finds and the number of units in a block. \<open>reseed\<close> is
  the number from which \<open>self.__random.randint(0, unit_len - 1)\<close> takes its value;
  \<open>randint\<close> raises ValueError on an empty range.
\<close>

definition path_gcd :: "assembly \<Rightarrow> path \<Rightarrow> int" where
  "path_gcd G circular_path = find_greatest_common_divisor (get_v_counts G (map fst circular_path))"

definition path_unit_len :: "assembly \<Rightarrow> path \<Rightarrow> nat" where
  "path_unit_len G circular_path = length circular_path div nat (path_gcd G circular_path)"

definition find_start :: "assembly \<Rightarrow> nat \<Rightarrow> path \<Rightarrow> py_error + nat option" where
  "find_start G reseed circular_path =
     (let v_list = map fst circular_path;
          v_counts = get_v_counts G v_list;
          g = path_gcd G circular_path;
          unit_counts = map (\<lambda>v_count. v_count div g) v_counts;
          unit_len = path_unit_len G circular_path
      in if unit_len = 0 then Inl ValueError
         else
           let reseed_at = reseed mod unit_len;
               v_list_shuffled = shuffled reseed_at unit_len v_list;
               counts_check = get_v_counts G (py_slice 0 unit_len v_list_shuffled)
           in search_start G v_list_shuffled unit_counts unit_len (nat g) unit_len 0 counts_check)"

definition path_shuffled :: "assembly \<Rightarrow> nat \<Rightarrow> path \<Rightarrow> path" where
  "path_shuffled G reseed circular_path =
     shuffled (reseed mod path_unit_len G circular_path) (path_unit_len G circular_path) circular_path"

definition unit_copy_num_at :: "assembly \<Rightarrow> int option \<Rightarrow> nat \<Rightarrow> path \<Rightarrow> nat \<Rightarrow> py_error + nat" where
  "unit_copy_num_at G lmal reseed circular_path try_start =
     (let unit_seq_len = get_path_length G
            (py_slice try_start (try_start + path_unit_len G circular_path)
               (path_shuffled G reseed circular_path))
      in get_unit_copy_num lmal unit_seq_len (path_gcd G circular_path))"

definition decompose_hetero_units :: "assembly \<Rightarrow> int option \<Rightarrow> nat \<Rightarrow> path \<Rightarrow> py_error + path list" where
  "decompose_hetero_units G lmal reseed circular_path =
     (let g = path_gcd G circular_path
      in if g = 1 then Inr [circular_path]
         else if g = 0 then Inl ZeroDivisionError
         else
           py_bind (find_start G reseed circular_path) (\<lambda>found.
             case found of
               None \<Rightarrow> Inr [circular_path]
             | Some try_start \<Rightarrow>
                 py_bind (unit_copy_num_at G lmal reseed circular_path try_start) (\<lambda>unit_copy_num.
                   Inr (map (get_standardized_circular_path G)
                          (filter (is_circular_path G)
                             (unit_blocks (path_shuffled G reseed circular_path) try_start
                                (path_unit_len G circular_path) unit_copy_num (nat g)))))))"

section \<open>The sampling driver\<close>

text \<open>
  \<open>get_single_traversal\<close> draws from the random source and its result is not a function
  of the generator: \<open>traversal k\<close> stands for the walk that the call number \<open>k\<close> (counted
  from 0) returns, and \<open>reseed k\<close> for the random number that the decomposition of that walk
  draws. The loop \<open>for new_path in new_path_list\<close> with its \<open>break\<close>:
\<close>

definition store_path :: "path \<Rightarrow> generator \<Rightarrow> generator" where
  "store_path new_path s =
     (case components_counts s new_path of
        Some c \<Rightarrow> s\<lparr>components_counts := (components_counts s)(new_path \<mapsto> c + 1)\<rparr>
      | None \<Rightarrow> s\<lparr>components_counts := (components_counts s)(new_path \<mapsto> 1),
                   components := components s @ [new_path]\<rparr>)"

fun store_paths :: "path list \<Rightarrow> int \<times> generator \<Rightarrow> int \<times> generator" where
  "store_paths [] (count_valid, s) = (count_valid, s)"
| "store_paths (new_path # rest) (count_valid, s) =
     (if count_valid + 1 = num_search s then (count_valid + 1, store_path new_path s)
      else store_paths rest (count_valid + 1, store_path new_path s))"

definition invalid_search :: "assembly \<Rightarrow> generator \<Rightarrow> path \<Rightarrow> bool" where
  "invalid_search G s new_path =
     ((force_circular s \<and> \<not> is_circular_path G new_path) \<or>
      (\<not> hetero_chromosome s \<and> \<not> is_fully_covered_by G new_path))"

text \<open>One pass through the body of \<open>while count_valid < self.num_search\<close>.\<close>

definition uni_iteration ::
  "assembly \<Rightarrow> (nat \<Rightarrow> path) \<Rightarrow> (nat \<Rightarrow> nat) \<Rightarrow> nat \<times> int \<times> generator \<Rightarrow> py_error + nat \<times> int \<times> generator" where
  "uni_iteration G traversal reseed st =
     (case st of (count_search, count_valid, s) \<Rightarrow>
        let new_path = traversal count_search
        in if invalid_search G s new_path then Inr (count_search + 1, count_valid, s)
           else
             py_bind (if int (length new_path) \<ge> int (length (vertex_info G)) * 2
                      then decompose_hetero_units G (local_max_alignment_len s)
                             (reseed count_search) new_path
                      else Inr [new_path]) (\<lambda>new_path_list.
               Inr (count_search + 1, store_paths new_path_list (count_valid, s))))"

text \<open>The \<open>while\<close> loop has no bound of its own: not returning is the value \<open>None\<close>.\<close>

partial_function (option) uni_loop ::
  "assembly \<Rightarrow> (nat \<Rightarrow> path) \<Rightarrow> (nat \<Rightarrow> nat) \<Rightarrow> nat \<times> int \<times> generator
     \<Rightarrow> (py_error + nat \<times> int \<times> generator) option" where
  "uni_loop G traversal reseed st =
     (if fst (snd st) < num_search (snd (snd st)) then
        (case uni_iteration G traversal reseed st of
           Inl e \<Rightarrow> Some (Inl e)
         | Inr st' \<Rightarrow> uni_loop G traversal reseed st')
      else Some (Inr st))"

definition gen_heuristic_paths_uni ::
  "assembly \<Rightarrow> (nat \<Rightarrow> path) \<Rightarrow> (nat \<Rightarrow> nat) \<Rightarrow> generator \<Rightarrow> (py_error + generator) option" where
  "gen_heuristic_paths_uni G traversal reseed s =
     map_option (map_sum id (\<lambda>st. snd (snd st))) (uni_loop G traversal reseed (0, 0, s))"

text \<open>The two ways to fill \<open>contig_coverages\<close>.\<close>

definition use_contig_coverage_from_assembly_graph :: "assembly \<Rightarrow> generator \<Rightarrow> generator" where
  "use_contig_coverage_from_assembly_graph G s =
     s\<lparr>contig_coverages := map (\<lambda>(v_name, v). (v_name, cov v)) (vertex_info G)\<rparr>"

definition estimate_contig_coverages_from_read_paths :: "assembly \<Rightarrow> generator \<Rightarrow> generator" where
  "estimate_contig_coverages_from_read_paths G s =
     s\<lparr>contig_coverages :=
         map (\<lambda>v_name. (v_name, real (count_list (map fst (concat (read_paths s))) v_name)))
             (vertex_names G)\<rparr>"

text \<open>
  The state after at most \<open>n\<close> passes through the body of the loop: what a run has
  stored by then, whether or not it ever leaves the loop.
\<close>

fun uni_run ::
  "nat \<Rightarrow> assembly \<Rightarrow> (nat \<Rightarrow> path) \<Rightarrow> (nat \<Rightarrow> nat) \<Rightarrow> nat \<times> int \<times> generator
     \<Rightarrow> py_error + nat \<times> int \<times> generator" where
  "uni_run 0 G traversal reseed st = Inr st"
| "uni_run (Suc n) G traversal reseed st =
     (if fst (snd st) < num_search (snd (snd st))
      then py_bind (uni_iteration G traversal reseed st) (uni_run n G traversal reseed)
      else Inr st)"

text \<open>
  \<open>generate_heuristic_components\<close> with one process (the pool of worker processes of the
  other branch is outside this model): the index is built if it has not been,
  \<open>contig_coverages\<close> is assigned, then the loop runs.
\<close>

definition prepare_generation :: "assembly \<Rightarrow> generator \<Rightarrow> py_error + generator" where
  "prepare_generation G s =
     py_bind (if read_paths_counter_indexed s then Inr s else index_readpaths_subpaths G True s)
       (\<lambda>s1. Inr (if use_alignment_cov s1 then estimate_contig_coverages_from_read_paths G s1
                   else use_contig_coverage_from_assembly_graph G s1))"

definition generate_heuristic_components ::
  "assembly \<Rightarrow> (nat \<Rightarrow> path) \<Rightarrow> (nat \<Rightarrow> nat) \<Rightarrow> generator \<Rightarrow> (py_error + generator) option" where
  "generate_heuristic_components G traversal reseed s =
     (case prepare_generation G s of
        Inl e \<Rightarrow> Some (Inl e)
      | Inr s1 \<Rightarrow> gen_heuristic_paths_uni G traversal reseed s1)"

text \<open>The walk of scenario S4 on the dead-end graph, returned by every traversal.\<close>

definition dead_end_traversal :: "nat \<Rightarrow> path" where
  "dead_end_traversal k = [(''a'', True), (''b'', True), (''c'', True)]"

definition no_reseed :: "nat \<Rightarrow> nat" where
  "no_reseed k = 0"




section \<open>The traverser: multiplicity likelihood, multiplicity check, extension on the graph\<close>

text \<open>
  Every recursive call of \<open>__heuristic_extend_path\<close> and \<open>__heuristic_check_multiplicity\<close>
  is a tail call: a method ends by returning a walk or by calling \<open>__heuristic_extend_path\<close>
  on a new walk. \<open>ExtendPath p r\<close> stands for
  \<open>return self.__heuristic_extend_path(p, not_do_reverse=r)\<close> and \<open>ReturnPath p\<close> for
  \<open>return p\<close>.
\<close>

datatype action = ExtendPath path bool | ReturnPath path

text \<open>
  The random source \<open>self.__random\<close>: \<open>rng_random i\<close> is the value of the call number
  \<open>i\<close> (from 0) of \<open>random()\<close> within one method, \<open>rng_choices ws\<close> the position that
  \<open>choices\<close> picks under the weights \<open>ws\<close>, and \<open>rng_choice n\<close> the position that
  \<open>choice\<close> picks among \<open>n\<close> items.
\<close>

record random_source =
  rng_random :: "nat \<Rightarrow> real"
  rng_choices :: "real list \<Rightarrow> nat"
  rng_choice :: "nat \<Rightarrow> nat"

text \<open>
  \<open>__get_cov_mean(path, return_std=True)\<close> as a pair, and the truth value of an optional
  number (\<open>None\<close> and 0 are false).
\<close>

definition get_cov_mean_std ::
  "assembly \<Rightarrow> (string \<times> real) list \<Rightarrow> path \<Rightarrow> py_error + real \<times> real" where
  "get_cov_mean_std G cc p =
     py_bind (get_cov_mean G cc p None True) (\<lambda>(mean, std).
       case std of None \<Rightarrow> Inl TypeError | Some sd \<Rightarrow> Inr (mean, sd))"

definition get_cov_mean_of_single_std ::
  "assembly \<Rightarrow> (string \<times> real) list \<Rightarrow> path \<Rightarrow> py_error + real \<times> real" where
  "get_cov_mean_of_single_std G cc p =
     py_bind (get_cov_mean_of_single G cc p True) (\<lambda>(mean, std).
       case std of None \<Rightarrow> Inl TypeError | Some sd \<Rightarrow> Inr (mean, sd))"

definition truthy :: "real option \<Rightarrow> bool" where
  "truthy x = (case x of None \<Rightarrow> False | Some v \<Rightarrow> v \<noteq> 0)"

text \<open>
  The loop of \<open>__cal_multiplicity_like\<close> over the proposed extension. \<open>logpdf x loc scale\<close>
  stands for \<open>scipy.stats.norm.logpdf\<close>. The arguments after the rest of the extension
  are the walk so far, the mean and the deviation of the last step, the running sum and
  \<open>_old_like_cache\<close>. \<open>current_v_counts\<close> is not updated within the loop.
\<close>

fun cal_loop ::
  "assembly \<Rightarrow> (string \<times> real) list \<Rightarrow> (real \<Rightarrow> real \<Rightarrow> real \<Rightarrow> real) \<Rightarrow> (string \<times> nat) list
     \<Rightarrow> real \<Rightarrow> real \<Rightarrow> path \<Rightarrow> path \<Rightarrow> real \<Rightarrow> real \<Rightarrow> real \<Rightarrow> (string \<times> real) list
     \<Rightarrow> py_error + real list" where
  "cal_loop G cc logpdf current_v_counts single_cov_mean single_cov_std [] p old_cov_mean
     old_cov_std log_like_ratio old_like_cache = Inr []"
| "cal_loop G cc logpdf current_v_counts single_cov_mean single_cov_std ((v_name, v_end) # rest) p
     old_cov_mean old_cov_std log_like_ratio old_like_cache =
     py_bind (lookup current_v_counts v_name) (\<lambda>current_c.
     py_bind (lookup cc v_name) (\<lambda>coverage.
     py_bind (get_cov_mean_std G cc (p @ [(v_name, v_end)])) (\<lambda>(new_cov_mean, new_cov_std).
     py_bind (lookup (vertex_info G) v_name) (\<lambda>v.
       let old_like =
             (case map_of old_like_cache v_name of
                Some l \<Rightarrow> l
              | None \<Rightarrow>
                  logpdf coverage (real current_c * old_cov_mean) old_cov_std
                  + (if current_c \<noteq> 0
                     then logpdf (coverage / real current_c) single_cov_mean single_cov_std
                     else 0));
           new_like =
             logpdf coverage (real (current_c + 1) * new_cov_mean) new_cov_std
             + (if current_c \<noteq> 0
                then logpdf (coverage / real (current_c + 1)) single_cov_mean single_cov_std
                else 0);
           ratio = log_like_ratio + (new_like - old_like) * real_of_int (len v)
       in py_bind (cal_loop G cc logpdf current_v_counts single_cov_mean single_cov_std rest
                     (p @ [(v_name, v_end)]) new_cov_mean new_cov_std ratio
                     ((v_name, old_like) # old_like_cache))
            (\<lambda>ratios. Inr (ratio # ratios))))))"

text \<open>
  \<open>proposed_lengths\<close> is built before the loop, and the sums \<open>accumulated_v_lengths\<close> after
  it. The quotient by a sum of lengths is the quotient of real numbers: a sum of zero, for
  which numpy gives an infinity or a nan, is outside what the model says.
\<close>

fun extension_lengths :: "assembly \<Rightarrow> path \<Rightarrow> py_error + int list" where
  "extension_lengths G [] = Inr []"
| "extension_lengths G ((v_name, v_end) # rest) =
     py_bind (lookup (vertex_info G) v_name) (\<lambda>v.
     py_bind (extension_lengths G rest) (\<lambda>ls. Inr (len v # ls)))"

definition accumulated_lengths :: "int list \<Rightarrow> int list" where
  "accumulated_lengths v_lengths = map (\<lambda>i. sum_list (take (i + 1) v_lengths)) [0..<length v_lengths]"

definition cal_multiplicity_like ::
  "assembly \<Rightarrow> (string \<times> real) list \<Rightarrow> (real \<Rightarrow> real \<Rightarrow> real \<Rightarrow> real) \<Rightarrow> path \<Rightarrow> path
     \<Rightarrow> (string \<times> nat) list option \<Rightarrow> real option \<Rightarrow> real option \<Rightarrow> real option \<Rightarrow> real option
     \<Rightarrow> bool \<Rightarrow> py_error + real list" where
  "cal_multiplicity_like G cc logpdf p proposed_extension current_v_counts old_cov_mean old_cov_std
     single_cov_mean single_cov_std logarithm =
     (let counts =
            (case current_v_counts of
               None \<Rightarrow> map (\<lambda>v_n. (v_n, count_list (map fst p) v_n))
                         (remdups (map fst proposed_extension))
             | Some d \<Rightarrow> if d = []
                          then map (\<lambda>v_n. (v_n, count_list (map fst p) v_n))
                                 (remdups (map fst proposed_extension))
                          else d)
      in py_bind (if truthy old_cov_mean \<and> truthy old_cov_std
                  then Inr (the old_cov_mean, the old_cov_std)
                  else get_cov_mean_std G cc p) (\<lambda>(old_mean, old_std).
         py_bind (if truthy single_cov_mean \<and> truthy single_cov_std
                  then Inr (the single_cov_mean, the single_cov_std)
                  else get_cov_mean_of_single_std G cc p) (\<lambda>(single_mean, single_std).
         py_bind (extension_lengths G proposed_extension) (\<lambda>v_lengths.
         py_bind (cal_loop G cc logpdf counts single_mean single_std proposed_extension p
                    old_mean old_std 0 []) (\<lambda>ratios.
           let deweighted = map2 (\<lambda>llr acc. llr / real_of_int acc) ratios
                              (accumulated_lengths v_lengths)
           in Inr (if logarithm then deweighted else map exp deweighted))))))"

text \<open>
  \<open>__heuristic_check_multiplicity\<close>. First the test for a segment that the walk does not
  have yet: \<open>None\<close> is the early return that accepts the whole extension.
\<close>

fun own_counts :: "string list \<Rightarrow> path \<Rightarrow> (string \<times> nat) list \<Rightarrow> (string \<times> nat) list option" where
  "own_counts current_vs [] counts = Some counts"
| "own_counts current_vs ((v_name, v_end) # rest) counts =
     (let v_count = count_list current_vs v_name
      in if v_count \<noteq> 0
         then own_counts current_vs rest ((v_name, v_count) # filter (\<lambda>(n, c). n \<noteq> v_name) counts)
         else None)"

fun given_counts :: "(string \<times> nat) list \<Rightarrow> path \<Rightarrow> py_error + bool" where
  "given_counts d [] = Inr False"
| "given_counts d ((v_name, v_end) # rest) =
     py_bind (lookup d v_name) (\<lambda>c. if c = 0 then Inr True else given_counts d rest)"

text \<open>
  The comparison \<open>draw_prob > self.__random.random()\<close> with
  \<open>draw_prob = (like_ratio - previous_like) / (1. - previous_like)\<close>. The numbers of the
  source are numpy floats, for which a division by zero gives an infinity of the sign of
  the numerator or a nan, and no exception: written out for \<open>previous_like = 1\<close>.
\<close>

definition draw_exceeds :: "real \<Rightarrow> real \<Rightarrow> real \<Rightarrow> bool" where
  "draw_exceeds like_ratio previous_like r =
     (if previous_like = 1 then like_ratio > 1
      else (like_ratio - previous_like) / (1 - previous_like) > r)"

text \<open>
  The loop \<open>for rev_go, like_ratio in enumerate(like_ratio_list[::-1])\<close>: its list is the
  reversed list, \<open>rev_go\<close> counts the passes. The result is the \<open>proposed_end\<close> at which the
  loop returns, if it does.
\<close>

fun acceptance_loop :: "real list \<Rightarrow> nat \<Rightarrow> real \<Rightarrow> (nat \<Rightarrow> real) \<Rightarrow> nat \<Rightarrow> int option" where
  "acceptance_loop [] rev_go previous_like rand longest_ex_len = None"
| "acceptance_loop (like_ratio # rest) rev_go previous_like rand longest_ex_len =
     (if draw_exceeds like_ratio previous_like (rand rev_go)
      then Some (int longest_ex_len - int rev_go)
      else acceptance_loop rest (Suc rev_go) like_ratio rand longest_ex_len)"

text \<open>\<open>xs[:k]\<close> for an integer \<open>k\<close>: a negative \<open>k\<close> counts from the end.\<close>

definition py_prefix :: "int \<Rightarrow> 'a list \<Rightarrow> 'a list" where
  "py_prefix k xs = (if 0 \<le> k then take (nat k) xs else take (length xs - nat (- k)) xs)"

definition heuristic_check_multiplicity ::
  "assembly \<Rightarrow> (string \<times> real) list \<Rightarrow> (real \<Rightarrow> real \<Rightarrow> real \<Rightarrow> real) \<Rightarrow> random_source \<Rightarrow> path
     \<Rightarrow> path \<Rightarrow> bool \<Rightarrow> (string \<times> nat) list option \<Rightarrow> real list option \<Rightarrow> py_error + action" where
  "heuristic_check_multiplicity G cc logpdf rng p proposed_extension not_do_reverse
     current_v_counts cached_like_ls =
     (if proposed_extension = [] then Inl AssertionError
      else
        py_bind
          (case (case current_v_counts of None \<Rightarrow> [] | Some d \<Rightarrow> d) of
             [] \<Rightarrow> Inr (own_counts (map fst p) proposed_extension [])
           | d \<Rightarrow> py_bind (given_counts d proposed_extension)
                    (\<lambda>new. Inr (if new then None else Some d)))
          (\<lambda>counts.
             case counts of
               None \<Rightarrow> Inr (ExtendPath (p @ proposed_extension) not_do_reverse)
             | Some d \<Rightarrow>
                 py_bind (case cached_like_ls of
                            Some ls \<Rightarrow> Inr ls
                          | None \<Rightarrow> cal_multiplicity_like G cc logpdf p proposed_extension
                                      (Some d) None None None None False)
                   (\<lambda>like_ratio_list.
                      case acceptance_loop (rev like_ratio_list) 0 0 (rng_random rng)
                             (length proposed_extension) of
                        Some proposed_end \<Rightarrow>
                          Inr (ExtendPath (p @ py_prefix proposed_end proposed_extension) not_do_reverse)
                      | None \<Rightarrow>
                          if not_do_reverse then Inr (ReturnPath p)
                          else Inr (ExtendPath (reverse_path G p) True))))"

text \<open>
  The claim's own account of the acceptance: the entry \<open>L[i]\<close> of the likelihood-ratio
  vector for \<open>i\<close> from 1 to \<open>m\<close>, with \<open>L[m + 1] = 0\<close>, and the test of the prefix of length
  \<open>i\<close> against a random number \<open>r\<close>.
\<close>

definition ratio_at :: "real list \<Rightarrow> nat \<Rightarrow> real" where
  "ratio_at L i = (if i = length L + 1 then 0 else L ! (i - 1))"

definition prefix_passes :: "real list \<Rightarrow> nat \<Rightarrow> real \<Rightarrow> bool" where
  "prefix_passes L i r =
     (if ratio_at L (i + 1) = 1 then ratio_at L i > 1
      else (ratio_at L i - ratio_at L (i + 1)) / (1 - ratio_at L (i + 1)) > r)"

text \<open>
  The branch of \<open>__heuristic_extend_path\<close> that extends on the graph, taken when no read
  path overlaps the end of the walk: first the choice of the next connection, \<open>None\<close> when
  the last segment has none, together with \<open>like_ls_cached\<close>.
  \<open>current_ave_coverage\<close> was computed before the branch.
\<close>

fun extension_coverages :: "(string \<times> real) list \<Rightarrow> oriented list \<Rightarrow> py_error + real list" where
  "extension_coverages cc [] = Inr []"
| "extension_coverages cc ((v_name, v_end) # rest) =
     py_bind (lookup cc v_name) (\<lambda>c.
     py_bind (extension_coverages cc rest) (\<lambda>cs. Inr (c # cs)))"

fun candidate_likes ::
  "assembly \<Rightarrow> (string \<times> real) list \<Rightarrow> (real \<Rightarrow> real \<Rightarrow> real \<Rightarrow> real) \<Rightarrow> path \<Rightarrow> real \<Rightarrow> real
     \<Rightarrow> real \<Rightarrow> real \<Rightarrow> oriented list \<Rightarrow> py_error + (real list list \<times> real list)" where
  "candidate_likes G cc logpdf p old_mean old_std single_mean single_std [] = Inr ([], [])"
| "candidate_likes G cc logpdf p old_mean old_std single_mean single_std (next_v # rest) =
     py_bind (cal_multiplicity_like G cc logpdf p [next_v]
                (Some [(fst next_v, count_list (map fst p) (fst next_v))])
                (Some old_mean) (Some old_std) (Some single_mean) (Some single_std) True)
       (\<lambda>loglike_ls.
     py_bind (py_item loglike_ls 0) (\<lambda>w.
     py_bind (candidate_likes G cc logpdf p old_mean old_std single_mean single_std rest)
       (\<lambda>(like_ls_cached, weights). Inr (map exp loglike_ls # like_ls_cached, w # weights))))"

definition choose_next_connection ::
  "assembly \<Rightarrow> (string \<times> real) list \<Rightarrow> (real \<Rightarrow> real \<Rightarrow> real \<Rightarrow> real) \<Rightarrow> random_source \<Rightarrow> bool
     \<Rightarrow> real \<Rightarrow> real \<Rightarrow> path \<Rightarrow> py_error + (oriented \<times> real list) option" where
  "choose_next_connection G cc logpdf rng hetero cov_inert current_ave_coverage p =
     (if p = [] then Inl IndexError
      else
        py_bind (lookup (vertex_info G) (fst (last p))) (\<lambda>v.
          let next_connections = connections v (snd (last p))
          in if next_connections = [] then Inr None
             else if length next_connections > 2 then
               (let candidates_next = sort next_connections
                in if \<not> hetero then
                     py_bind (get_cov_mean_std G cc p) (\<lambda>(old_mean, old_std).
                     py_bind (get_cov_mean_of_single_std G cc p) (\<lambda>(single_mean, single_std).
                     py_bind (candidate_likes G cc logpdf p old_mean old_std single_mean
                                single_std candidates_next) (\<lambda>(like_ls_cached, weights).
                       let shifted = map (\<lambda>w. exp (w - Max (set weights))) weights;
                           chosen_cdd_id = rng_choices rng shifted
                       in py_bind (py_item candidates_next chosen_cdd_id) (\<lambda>next_v.
                          py_bind (py_item like_ls_cached chosen_cdd_id) (\<lambda>cached.
                            Inr (Some (next_v, cached)))))))
                   else if cov_inert \<noteq> 0 then
                     py_bind (extension_coverages cc candidates_next) (\<lambda>cdd_cov.
                       let weights = map (\<lambda>c. exp (- \<bar>ln (c / current_ave_coverage)\<bar>)) cdd_cov
                       in py_bind (py_item candidates_next (rng_choices rng weights))
                            (\<lambda>next_v. Inr (Some (next_v, []))))
                   else
                     py_bind (py_item candidates_next (rng_choice rng (length candidates_next)))
                       (\<lambda>next_v. Inr (Some (next_v, []))))
             else py_bind (py_item next_connections 0) (\<lambda>next_v. Inr (Some (next_v, [])))))"

definition extend_by_graph ::
  "assembly \<Rightarrow> (string \<times> real) list \<Rightarrow> (real \<Rightarrow> real \<Rightarrow> real \<Rightarrow> real) \<Rightarrow> random_source \<Rightarrow> bool
     \<Rightarrow> real \<Rightarrow> real \<Rightarrow> path \<Rightarrow> bool \<Rightarrow> py_error + action" where
  "extend_by_graph G cc logpdf rng hetero cov_inert current_ave_coverage p not_do_reverse =
     py_bind (choose_next_connection G cc logpdf rng hetero cov_inert current_ave_coverage p)
       (\<lambda>chosen.
          case chosen of
            Some ((next_name, next_end), like_ls_cached) \<Rightarrow>
              heuristic_check_multiplicity G cc logpdf rng p [(next_name, \<not> next_end)]
                not_do_reverse None (Some like_ls_cached)
          | None \<Rightarrow>
              if not_do_reverse then Inr (ReturnPath p)
              else Inr (ExtendPath (reverse_path G p) True))"

text \<open>
  The fork: from the forward end of \<open>a\<close> the walk can go on to \<open>b\<close> and to \<open>c\<close>. The
  coverage of \<open>c\<close>, 60, is twice that of the two others.
\<close>

definition fork_vertices :: "(string \<times> vertex) list" where
  "fork_vertices =
     [(''a'', \<lparr>len = 100, cov = 30,
              connections = (\<lambda>e. if e then [(''b'', False), (''c'', False)] else [])\<rparr>),
      (''b'', \<lparr>len = 100, cov = 30,
              connections = (\<lambda>e. if e then [] else [(''a'', True)])\<rparr>),
      (''c'', \<lparr>len = 100, cov = 60,
              connections = (\<lambda>e. if e then [] else [(''a'', True)])\<rparr>)]"

definition fork_graph :: assembly where
  "fork_graph = spec_assembly fork_vertices (\<lambda>p. p)"

text \<open>
  A random source for the examples: the first call of \<open>random()\<close> gives 0.9 and the later
  ones 0.1; \<open>choices\<close> and \<open>choice\<close> pick the last position.
\<close>

definition example_rng :: random_source where
  "example_rng =
     \<lparr>rng_random = (\<lambda>i. if i = 0 then 9 / 10 else 1 / 10),
      rng_choices = (\<lambda>ws. length ws - 1),
      rng_choice = (\<lambda>n. n - 1)\<rparr>"

definition zero_logpdf :: "real \<Rightarrow> real \<Rightarrow> real \<Rightarrow> real" where
  "zero_logpdf x loc scale = 0"

section \<open>Properties of the GAF path parser\<close>

lemma split_at_not_Nil: "split_at sep s \<noteq> []"
  by (induction s) (auto split: list.splits)

lemma hd_split_at: "hd (split_at sep s) = takeWhile (\<lambda>c. c \<noteq> sep) s"
  by (induction s) (auto split: list.splits simp: split_at_not_Nil)

lemma item0_split_at: "item0 (split_at sep s) = Inr (takeWhile (\<lambda>c. c \<noteq> sep) s)"
  using hd_split_at [of sep s] split_at_not_Nil [of sep s]
  by (cases "split_at sep s") (auto simp: item0_def)

lemma findall_segments_nonempty: "tok \<in> set (findall_segments s) \<Longrightarrow> tok \<noteq> []"
  by (induction s rule: findall_segments.induct) (auto split: if_splits)

lemma parse_gaf_loop_map:
  "\<forall>tok \<in> set toks. tok \<noteq> [] \<Longrightarrow>
   parse_gaf_loop toks acc = Inr (acc @ map oriented_of_token toks)"
proof (induction toks arbitrary: acc)
  case Nil
  then show ?case by simp
next
  case (Cons tok toks)
  then obtain c cs where tok: "tok = c # cs" by (cases tok) auto
  from Cons.prems have rest: "\<forall>t \<in> set toks. t \<noteq> []" by simp
  show ?case
    using Cons.IH [OF rest]
    by (simp add: tok item0_def [of "c # cs"] item0_split_at oriented_of_token_def
        segment_name_def drop_Suc del: split_at.simps)
qed

lemma segment_name_no_colon: "CHR '':'' \<notin> set (segment_name body)"
  unfolding segment_name_def by (auto dest: set_takeWhileD)

lemma segment_name_strips:
  "\<exists>suffix. body = segment_name body @ suffix \<and> (suffix = [] \<or> hd suffix = CHR '':'')"
proof -
  let ?r = "dropWhile (\<lambda>c. c \<noteq> CHR '':'') body"
  have "body = segment_name body @ ?r"
    by (simp add: segment_name_def)
  moreover have "?r = [] \<or> hd ?r = CHR '':''"
    using hd_dropWhile [of "\<lambda>c. c \<noteq> CHR '':''" body] by auto
  ultimately show ?thesis by blast
qed

text \<open>
  Claim C9. For every GAF path string the parser returns, without raising, one oriented
  segment per token of the string, in order: a token that starts with \<open>>\<close> gives
  (name, forward), a token that starts with \<open><\<close> gives (name, reverse), and a token with
  neither prefix gives (name, forward). The name is the token (without its prefix) up to
  the first colon, so that it holds no colon and only a colon-led suffix is dropped.
\<close>

theorem parse_gaf_path_orientation:
  "\<exists>path_list. parse_gaf_path path_str = Inr path_list
     \<and> length path_list = length (findall_segments path_str)
     \<and> (\<forall>i < length path_list.
          let tok = findall_segments path_str ! i; body = (if hd tok \<in> {CHR ''>'', CHR ''<''} then tl tok else tok)
          in tok \<noteq> []
             \<and> (hd tok = CHR ''>'' \<longrightarrow> snd (path_list ! i) = True)
             \<and> (hd tok = CHR ''<'' \<longrightarrow> snd (path_list ! i) = False)
             \<and> (hd tok \<noteq> CHR ''>'' \<and> hd tok \<noteq> CHR ''<'' \<longrightarrow> snd (path_list ! i) = True)
             \<and> CHR '':'' \<notin> set (fst (path_list ! i))
             \<and> (\<exists>suffix. body = fst (path_list ! i) @ suffix \<and> (suffix = [] \<or> hd suffix = CHR '':'')))"
proof -
  let ?toks = "findall_segments path_str"
  have ne: "\<forall>tok \<in> set ?toks. tok \<noteq> []"
    using findall_segments_nonempty by blast
  have res: "parse_gaf_path path_str = Inr (map oriented_of_token ?toks)"
    using parse_gaf_loop_map [OF ne, of "[]"] by (simp add: parse_gaf_path_def)
  have each: "\<forall>i < length ?toks.
          let tok = ?toks ! i; body = (if hd tok \<in> {CHR ''>'', CHR ''<''} then tl tok else tok)
          in tok \<noteq> []
             \<and> (hd tok = CHR ''>'' \<longrightarrow> snd (oriented_of_token tok) = True)
             \<and> (hd tok = CHR ''<'' \<longrightarrow> snd (oriented_of_token tok) = False)
             \<and> (hd tok \<noteq> CHR ''>'' \<and> hd tok \<noteq> CHR ''<'' \<longrightarrow> snd (oriented_of_token tok) = True)
             \<and> CHR '':'' \<notin> set (fst (oriented_of_token tok))
             \<and> (\<exists>suffix. body = fst (oriented_of_token tok) @ suffix \<and> (suffix = [] \<or> hd suffix = CHR '':''))"
  proof (intro allI impI)
    fix i assume i: "i < length ?toks"
    then have "?toks ! i \<noteq> []" using ne by simp
    then show "let tok = ?toks ! i; body = (if hd tok \<in> {CHR ''>'', CHR ''<''} then tl tok else tok)
          in tok \<noteq> []
             \<and> (hd tok = CHR ''>'' \<longrightarrow> snd (oriented_of_token tok) = True)
             \<and> (hd tok = CHR ''<'' \<longrightarrow> snd (oriented_of_token tok) = False)
             \<and> (hd tok \<noteq> CHR ''>'' \<and> hd tok \<noteq> CHR ''<'' \<longrightarrow> snd (oriented_of_token tok) = True)
             \<and> CHR '':'' \<notin> set (fst (oriented_of_token tok))
             \<and> (\<exists>suffix. body = fst (oriented_of_token tok) @ suffix \<and> (suffix = [] \<or> hd suffix = CHR '':''))"
      using segment_name_strips [of "tl (?toks ! i)"] segment_name_strips [of "?toks ! i"]
      by (simp add: Let_def oriented_of_token_def segment_name_no_colon)
  qed
  show ?thesis
    using res each by (simp add: Let_def)
qed

theorem parse_gaf_path_orientation_witness:
  "\<exists>path_list. parse_gaf_path ''>s1:0-10<s2 s3:7'' = Inr path_list
     \<and> length path_list = 3
     \<and> snd (path_list ! 0) = True \<and> snd (path_list ! 1) = False \<and> snd (path_list ! 2) = True
     \<and> CHR '':'' \<notin> set (fst (path_list ! 0))"
proof -
  have toks: "findall_segments ''>s1:0-10<s2 s3:7'' = [''>s1:0-10'', ''<s2'', '' s3:7'']"
    by (simp add: in_segment_body_def is_space_def)
  obtain pl where pl: "parse_gaf_path ''>s1:0-10<s2 s3:7'' = Inr pl" "length pl = 3"
    and each: "\<forall>i < length pl.
          let tok = [''>s1:0-10'', ''<s2'', '' s3:7''] ! i;
              body = (if hd tok \<in> {CHR ''>'', CHR ''<''} then tl tok else tok)
          in tok \<noteq> []
             \<and> (hd tok = CHR ''>'' \<longrightarrow> snd (pl ! i) = True)
             \<and> (hd tok = CHR ''<'' \<longrightarrow> snd (pl ! i) = False)
             \<and> (hd tok \<noteq> CHR ''>'' \<and> hd tok \<noteq> CHR ''<'' \<longrightarrow> snd (pl ! i) = True)
             \<and> CHR '':'' \<notin> set (fst (pl ! i))
             \<and> (\<exists>suffix. body = fst (pl ! i) @ suffix \<and> (suffix = [] \<or> hd suffix = CHR '':''))"
    using parse_gaf_path_orientation [of "''>s1:0-10<s2 s3:7''"] unfolding toks by auto
  have "snd (pl ! 0) = True" "CHR '':'' \<notin> set (fst (pl ! 0))"
    using each [rule_format, of 0] pl(2) by (simp_all add: Let_def)
  moreover have "snd (pl ! 1) = False"
    using each [rule_format, of 1] pl(2) by (simp add: Let_def)
  moreover have "snd (pl ! 2) = True"
    using each [rule_format, of 2] pl(2) by (simp add: Let_def)
  ultimately show ?thesis using pl by simp
qed

section \<open>Properties of index_readpaths_subpaths\<close>

lemma summarize_alignment_lengths:
  "snd (summarize_alignment G f rs (s, ls)) = ls @ map p_align_len (kept_records G f rs)"
  by (induction rs arbitrary: s ls) (auto simp: kept_records_def Let_def)

lemma index_readpaths_subpaths_error_iff:
  "(index_readpaths_subpaths G f s = Inl IndexError) = (kept_records G f (alignment s) = [])"
proof -
  obtain s1 ls where sm:
    "summarize_alignment G f (alignment s) (s\<lparr>read_paths_counter := Map.empty\<rparr>, []) = (s1, ls)"
    by (cases "summarize_alignment G f (alignment s) (s\<lparr>read_paths_counter := Map.empty\<rparr>, [])")
  have ls: "ls = map p_align_len (kept_records G f (alignment s))"
    using summarize_alignment_lengths [of G f "alignment s" "s\<lparr>read_paths_counter := Map.empty\<rparr>" "[]"]
    by (simp add: sm)
  have empty: "(ls = []) = (kept_records G f (alignment s) = [])"
    by (simp add: ls)
  have "(index_readpaths_subpaths G f s = Inl IndexError) = (ls = [])"
    by (cases ls) (simp_all add: index_readpaths_subpaths_def sm)
  with empty show ?thesis by simp
qed

text \<open>
  Claim C10. Index ingestion needs at least one kept alignment record: when the alignment
  is empty, or \<open>filter_by_graph\<close> is on and the graph contains none of the standardised
  paths, \<open>index_readpaths_subpaths\<close> raises IndexError (at \<open>sorted(alignment_lengths)[-1]\<close>)
  instead of returning a generator with an empty index.
\<close>

theorem index_requires_kept_record:
  assumes "alignment s = [] \<or>
           (filter_by_graph \<and> (\<forall>r \<in> set (alignment s). \<not> contain_path G (get_standardized_path G (gaf_path r))))"
  shows "index_readpaths_subpaths G filter_by_graph s = Inl IndexError"
proof -
  have "kept_records G filter_by_graph (alignment s) = []"
    using assms by (auto simp: kept_records_def filter_empty_conv)
  then show ?thesis
    by (simp add: index_readpaths_subpaths_error_iff)
qed

theorem index_requires_kept_record_witness:
  "index_readpaths_subpaths dead_end_graph True
     (init_generator [\<lparr>gaf_path = [(''c'', True), (''a'', True)], p_align_len = 120\<rparr>]
        10 True True False)
   = Inl IndexError"
proof -
  have "\<not> spec_contain_path dead_end_vertices (spec_standardize_path [(''c'', True), (''a'', True)])"
    by (simp add: spec_standardize_path_def spec_reverse_path_def dead_end_vertices_def
        spec_neighbors_def)
  then show ?thesis
    by (intro index_requires_kept_record)
       (simp add: init_generator_def dead_end_graph_def spec_assembly_def)
qed









section \<open>Properties of the coverage statistics\<close>

lemma exclude_counts_all_exceed:
  "\<forall>(n, c) \<in> set dels. c > (case map_of v n of None \<Rightarrow> 0 | Some k \<Rightarrow> k) \<Longrightarrow>
   exclude_counts dels v = Inr v"
  by (induction dels) auto

lemma map_of_filter_other:
  "n \<noteq> s \<Longrightarrow> map_of (filter (\<lambda>(m, k). m \<noteq> n) v) s = map_of v s"
  by (induction v) auto

lemma map_of_update_other:
  "n \<noteq> s \<Longrightarrow> map_of (map (\<lambda>(m, k). if m = n then (m, c) else (m, k)) v) s = map_of v s"
  by (induction v) auto

lemma exclude_counts_keeps_exceeding:
  "\<forall>(n, c) \<in> set dels. c > 0 \<and> (n = s \<longrightarrow> c > (case map_of v s of None \<Rightarrow> 0 | Some k \<Rightarrow> k)) \<Longrightarrow>
   \<exists>v'. exclude_counts dels v = Inr v' \<and> map_of v' s = map_of v s"
proof (induction dels arbitrary: v)
  case Nil
  then show ?case by simp
next
  case (Cons d dels)
  obtain n c where d: "d = (n, c)" by (cases d)
  from Cons.prems have rest: "\<forall>(n, c) \<in> set dels. c > 0 \<and> (n = s \<longrightarrow> c > (case map_of v s of None \<Rightarrow> 0 | Some k \<Rightarrow> k))"
    by simp
  from Cons.prems d have c: "c > 0" "n = s \<longrightarrow> c > (case map_of v s of None \<Rightarrow> 0 | Some k \<Rightarrow> k)"
    by auto
  show ?case
  proof (cases "c > (case map_of v n of None \<Rightarrow> 0 | Some k \<Rightarrow> k)")
    case True
    then show ?thesis using Cons.IH [OF rest] by (simp add: d)
  next
    case False
    then have ns: "n \<noteq> s" using c(2) by auto
    from False c(1) obtain k where k: "map_of v n = Some k" by (cases "map_of v n") auto
    let ?v1 = "filter (\<lambda>(m, k). m \<noteq> n) v"
    let ?v2 = "map (\<lambda>(m, j). if m = n then (m, k - c) else (m, j)) v"
    have r1: "\<forall>(n, c) \<in> set dels. c > 0 \<and> (n = s \<longrightarrow> c > (case map_of ?v1 s of None \<Rightarrow> 0 | Some k \<Rightarrow> k))"
      using rest by (simp add: map_of_filter_other [OF ns])
    have r2: "\<forall>(n, c) \<in> set dels. c > 0 \<and> (n = s \<longrightarrow> c > (case map_of ?v2 s of None \<Rightarrow> 0 | Some k \<Rightarrow> k))"
      using rest by (simp add: map_of_update_other [OF ns])
    show ?thesis
      using Cons.IH [OF r1] Cons.IH [OF r2] False k
      by (auto simp: d map_of_filter_other [OF ns] map_of_update_other [OF ns])
  qed
qed

lemma map_of_name_counts:
  "map_of (name_counts p) n = (if n \<in> fst ` set p then Some (count_list (map fst p) n) else None)"
  by (auto simp: name_counts_def Let_def map_of_map_restrict restrict_map_def)

lemma name_counts_positive:
  assumes "(n, c) \<in> set (name_counts p)"
  shows "c > 0 \<and> c = count_list (map fst p) n"
proof -
  from assms have c: "c = count_list (map fst p) n" and n: "n \<in> set (map fst p)"
    by (auto simp: name_counts_def Let_def)
  from n have "count_list (map fst p) n \<noteq> 0"
    by (simp only: count_list_0_iff not_not)
  with c show ?thesis by simp
qed

lemma lookup_count: "(case map_of (name_counts p) n of None \<Rightarrow> 0 | Some k \<Rightarrow> k) = count_list (map fst p) n"
  by (auto simp: map_of_name_counts count_list_0_iff)

text \<open>
  Claim C6 says that the weighted coverage mean fails with CoverageExclusionInvalid, and
  returns no mean, when the exclusion path has more copies of a segment than the walk.
  The source has no such error: it logs and goes on. With the walk \<open>a\<close> and the exclusion
  path \<open>a, a\<close> on the loop graph the mean 30 is returned.
\<close>

theorem cov_mean_exclusion_counterexample:
  "count_list (map fst [(''a'', True), (''a'', False)]) ''a'' > count_list (map fst [(''a'', True)]) ''a''
   \<and> get_cov_mean loop_graph [(''a'', 30), (''b'', 30)] [(''a'', True)]
         (Some [(''a'', True), (''a'', False)]) False = Inr (30, None)"
  by (simp add: get_cov_mean_def check_path_def vertex_names_def loop_graph_def spec_assembly_def
      loop_vertices_def name_counts_def py_bind_def lookup_def np_average_def weighted_mean_std_def)

text \<open>
  Claim C6, amended. For every walk \<open>p\<close> and exclusion path in which the multiplicity of a
  segment \<open>s\<close> exceeds its multiplicity in \<open>p\<close>, the exclusion step raises nothing: it
  completes, and the multiplicity of \<open>s\<close> that enters the mean is the one \<open>s\<close> has in \<open>p\<close>.
  When every segment of the exclusion path exceeds, the operation returns exactly what it
  returns without an exclusion path.
\<close>

theorem cov_mean_exclusion_exceeding:
  assumes "count_list (map fst ex) s > count_list (map fst p) s"
  shows "(\<exists>v_names. exclude_counts (name_counts ex) (name_counts p) = Inr v_names
            \<and> map_of v_names s = map_of (name_counts p) s)
    \<and> ((\<forall>n \<in> fst ` set ex. count_list (map fst ex) n > count_list (map fst p) n)
         \<longrightarrow> get_cov_mean G cc p (Some ex) return_std = get_cov_mean G cc p None return_std)"
proof
  have "\<forall>(n, c) \<in> set (name_counts ex).
          c > 0 \<and> (n = s \<longrightarrow> c > (case map_of (name_counts p) s of None \<Rightarrow> 0 | Some k \<Rightarrow> k))"
    using assms name_counts_positive [of _ _ ex] by (auto simp: lookup_count)
  then show "\<exists>v_names. exclude_counts (name_counts ex) (name_counts p) = Inr v_names
            \<and> map_of v_names s = map_of (name_counts p) s"
    by (rule exclude_counts_keeps_exceeding)
next
  show "(\<forall>n \<in> fst ` set ex. count_list (map fst ex) n > count_list (map fst p) n)
         \<longrightarrow> get_cov_mean G cc p (Some ex) return_std = get_cov_mean G cc p None return_std"
  proof
    assume all: "\<forall>n \<in> fst ` set ex. count_list (map fst ex) n > count_list (map fst p) n"
    have "\<forall>(n, c) \<in> set (name_counts ex).
            c > (case map_of (name_counts p) n of None \<Rightarrow> 0 | Some k \<Rightarrow> k)"
    proof (clarify)
      fix n c assume nc: "(n, c) \<in> set (name_counts ex)"
      then have "c = count_list (map fst ex) n" "n \<in> fst ` set ex"
        by (auto simp: name_counts_def Let_def)
      moreover from all this(2) have "count_list (map fst ex) n > count_list (map fst p) n"
        by (rule bspec)
      ultimately show "c > (case map_of (name_counts p) n of None \<Rightarrow> 0 | Some k \<Rightarrow> k)"
        by (simp only: lookup_count)
    qed
    then have "exclude_counts (name_counts ex) (name_counts p) = Inr (name_counts p)"
      by (rule exclude_counts_all_exceed)
    then show "get_cov_mean G cc p (Some ex) return_std = get_cov_mean G cc p None return_std"
      by (simp add: get_cov_mean_def)
  qed
qed

theorem cov_mean_exclusion_exceeding_witness:
  "(\<exists>v_names. exclude_counts (name_counts [(''a'', True), (''a'', False)])
                   (name_counts [(''a'', True), (''b'', True)]) = Inr v_names
            \<and> map_of v_names ''a'' = Some 1)
   \<and> get_cov_mean loop_graph [(''a'', 30), (''b'', 30)] [(''a'', True), (''b'', True)]
         (Some [(''a'', True), (''a'', False)]) True
       = get_cov_mean loop_graph [(''a'', 30), (''b'', 30)] [(''a'', True), (''b'', True)] None True"
  using cov_mean_exclusion_exceeding
    [of "[(''a'', True), (''b'', True)]" "''a''" "[(''a'', True), (''a'', False)]"
        loop_graph "[(''a'', 30), (''b'', 30)]" True]
  by (simp add: map_of_name_counts)

section \<open>Properties of the decomposition into units\<close>






















section \<open>Properties of the sampling driver\<close>

lemma uni_iteration_invalid:
  "invalid_search G s (traversal cs) \<Longrightarrow>
   uni_iteration G traversal reseed (cs, cv, s) = Inr (cs + 1, cv, s)"
  by (simp add: uni_iteration_def)

lemma uni_loop_invalid_never_returns:
  assumes "uni_loop G traversal reseed st = Some y"
  shows "(\<forall>k. invalid_search G (snd (snd st)) (traversal k))
         \<longrightarrow> \<not> fst (snd st) < num_search (snd (snd st))"
proof (rule uni_loop.raw_induct
    [where P = "\<lambda>G tr rs st y. (\<forall>k. invalid_search G (snd (snd st)) (tr k))
                  \<longrightarrow> \<not> fst (snd st) < num_search (snd (snd st))", OF _ assms])
  fix loop :: "assembly \<Rightarrow> (nat \<Rightarrow> path) \<Rightarrow> (nat \<Rightarrow> nat) \<Rightarrow> nat \<times> int \<times> generator
     \<Rightarrow> (py_error + nat \<times> int \<times> generator) option"
  fix G traversal reseed st y
  assume IH: "\<And>G tr rs st y. loop G tr rs st = Some y \<Longrightarrow>
      (\<forall>k. invalid_search G (snd (snd st)) (tr k)) \<longrightarrow> \<not> fst (snd st) < num_search (snd (snd st))"
    and step: "(if fst (snd st) < num_search (snd (snd st)) then
        (case uni_iteration G traversal reseed st of
           Inl e \<Rightarrow> Some (Inl e)
         | Inr st' \<Rightarrow> loop G traversal reseed st')
      else Some (Inr st)) = Some y"
  obtain cs cv s where st: "st = (cs, cv, s)" by (cases st) auto
  show "(\<forall>k. invalid_search G (snd (snd st)) (traversal k))
         \<longrightarrow> \<not> fst (snd st) < num_search (snd (snd st))"
  proof (intro impI notI)
    assume inv: "\<forall>k. invalid_search G (snd (snd st)) (traversal k)"
      and lt: "fst (snd st) < num_search (snd (snd st))"
    from inv have "uni_iteration G traversal reseed st = Inr (cs + 1, cv, s)"
      by (simp add: st uni_iteration_invalid)
    with step lt have "loop G traversal reseed (cs + 1, cv, s) = Some y"
      by simp
    from IH [OF this] inv lt show False
      by (simp add: st)
  qed
qed

lemma store_path_fields:
  "num_search (store_path p s) = num_search s"
  "force_circular (store_path p s) = force_circular s"
  "hetero_chromosome (store_path p s) = hetero_chromosome s"
  "contig_coverages (store_path p s) = contig_coverages s"
  "local_max_alignment_len (store_path p s) = local_max_alignment_len s"
  by (simp_all add: store_path_def split: option.splits)


lemma store_paths_fields:
  "num_search (snd (store_paths ps (cv, s))) = num_search s
   \<and> force_circular (snd (store_paths ps (cv, s))) = force_circular s
   \<and> hetero_chromosome (snd (store_paths ps (cv, s))) = hetero_chromosome s
   \<and> contig_coverages (snd (store_paths ps (cv, s))) = contig_coverages s
   \<and> local_max_alignment_len (snd (store_paths ps (cv, s))) = local_max_alignment_len s"
  by (induction ps arbitrary: cv s) (simp_all add: store_path_fields)




lemma uni_iteration_keeps:
  assumes "uni_iteration G traversal reseed (cs, cv, s) = Inr (cs', cv', s')"
  shows "num_search s' = num_search s \<and> force_circular s' = force_circular s
    \<and> hetero_chromosome s' = hetero_chromosome s
    \<and> contig_coverages s' = contig_coverages s
    \<and> local_max_alignment_len s' = local_max_alignment_len s"
proof (cases "invalid_search G s (traversal cs)")
  case True
  with assms show ?thesis by (simp add: uni_iteration_invalid)
next
  case False
  with assms have "\<exists>ps. store_paths ps (cv, s) = (cv', s')"
    by (auto simp: uni_iteration_def Let_def py_bind_def simp del: store_paths.simps
        split: sum.splits if_splits)
  then obtain ps where "s' = snd (store_paths ps (cv, s))" by (metis snd_conv)
  then show ?thesis using store_paths_fields [of ps cv s] by simp
qed



lemma uni_run_frame:
  assumes "uni_run n G traversal reseed st = Inr st'"
  shows "contig_coverages (snd (snd st')) = contig_coverages (snd (snd st))"
  using assms
proof (induction n arbitrary: st)
  case 0
  then show ?case by simp
next
  case (Suc n)
  show ?case
  proof (cases "fst (snd st) < num_search (snd (snd st))")
    case False
    with Suc.prems show ?thesis by simp
  next
    case True
    with Suc.prems(1) obtain st1 where it: "uni_iteration G traversal reseed st = Inr st1"
      and run: "uni_run n G traversal reseed st1 = Inr st'"
      by (auto simp: py_bind_def split: sum.splits)
    obtain cs cv s where st: "st = (cs, cv, s)" by (cases st) auto
    obtain cs1 cv1 s1 where st1: "st1 = (cs1, cv1, s1)" by (cases st1) auto
    show ?thesis
      using uni_iteration_keeps [OF it [unfolded st st1]] Suc.IH [OF run]
      by (simp add: st st1)
  qed
qed

lemma uni_loop_is_run:
  assumes "uni_loop G traversal reseed st = Some res"
  shows "\<exists>n. uni_run n G traversal reseed st = res"
proof (rule uni_loop.raw_induct
    [where P = "\<lambda>G tr rs st res. \<exists>n. uni_run n G tr rs st = res", OF _ assms])
  fix loop :: "assembly \<Rightarrow> (nat \<Rightarrow> path) \<Rightarrow> (nat \<Rightarrow> nat) \<Rightarrow> nat \<times> int \<times> generator
     \<Rightarrow> (py_error + nat \<times> int \<times> generator) option"
  fix G traversal reseed st res
  assume IH: "\<And>G tr rs st res. loop G tr rs st = Some res \<Longrightarrow> \<exists>n. uni_run n G tr rs st = res"
    and step: "(if fst (snd st) < num_search (snd (snd st)) then
        (case uni_iteration G traversal reseed st of
           Inl e \<Rightarrow> Some (Inl e)
         | Inr st' \<Rightarrow> loop G traversal reseed st')
      else Some (Inr st)) = Some res"
  show "\<exists>n. uni_run n G traversal reseed st = res"
  proof (cases "fst (snd st) < num_search (snd (snd st))")
    case False
    with step have "uni_run 0 G traversal reseed st = res" by simp
    then show ?thesis ..
  next
    case True
    show ?thesis
    proof (cases "uni_iteration G traversal reseed st")
      case (Inl e)
      with step True have "uni_run (Suc 0) G traversal reseed st = res"
        by (auto simp: py_bind_def)
      then show ?thesis ..
    next
      case (Inr st1)
      with step True have "loop G traversal reseed st1 = Some res" by simp
      from IH [OF this] obtain n where "uni_run n G traversal reseed st1 = res" ..
      with Inr True have "uni_run (Suc n) G traversal reseed st = res"
        by (simp add: py_bind_def)
      then show ?thesis ..
    qed
  qed
qed


lemma count_read_path_fields:
  "num_search (count_read_path p s) = num_search s"
  "force_circular (count_read_path p s) = force_circular s"
  "hetero_chromosome (count_read_path p s) = hetero_chromosome s"
  "use_alignment_cov (count_read_path p s) = use_alignment_cov s"
  "components (count_read_path p s) = components s"
  by (simp_all add: count_read_path_def split: option.splits)

lemma summarize_alignment_fields:
  "num_search (fst (summarize_alignment G f rs (s, ls))) = num_search s
   \<and> force_circular (fst (summarize_alignment G f rs (s, ls))) = force_circular s
   \<and> hetero_chromosome (fst (summarize_alignment G f rs (s, ls))) = hetero_chromosome s
   \<and> use_alignment_cov (fst (summarize_alignment G f rs (s, ls))) = use_alignment_cov s
   \<and> components (fst (summarize_alignment G f rs (s, ls))) = components s"
proof (induction rs arbitrary: s ls)
  case Nil
  then show ?case by simp
next
  case (Cons r rs)
  let ?p = "get_standardized_path G (gaf_path r)"
  show ?case
    using Cons.IH [of "count_read_path ?p s" "ls @ [p_align_len r]"] Cons.IH [of s ls]
    by (cases f) (simp_all add: Let_def count_read_path_fields)
qed

lemma apply_index_calls_fields:
  "num_search (foldl apply_index_call s cs) = num_search s
   \<and> force_circular (foldl apply_index_call s cs) = force_circular s
   \<and> hetero_chromosome (foldl apply_index_call s cs) = hetero_chromosome s
   \<and> use_alignment_cov (foldl apply_index_call s cs) = use_alignment_cov s
   \<and> components (foldl apply_index_call s cs) = components s"
proof (induction cs arbitrary: s)
  case Nil
  then show ?case by simp
next
  case (Cons c cs)
  show ?case using Cons.IH [of "apply_index_call s c"] by (cases c) simp_all
qed

lemma index_readpaths_subpaths_fields:
  assumes "index_readpaths_subpaths G f s = Inr s1"
  shows "num_search s1 = num_search s \<and> force_circular s1 = force_circular s
    \<and> hetero_chromosome s1 = hetero_chromosome s \<and> use_alignment_cov s1 = use_alignment_cov s
    \<and> components s1 = components s"
proof -
  obtain s0 ls where sm:
    "summarize_alignment G f (alignment s) (s\<lparr>read_paths_counter := Map.empty\<rparr>, []) = (s0, ls)"
    by (cases "summarize_alignment G f (alignment s) (s\<lparr>read_paths_counter := Map.empty\<rparr>, [])")
  have s0: "num_search s0 = num_search s \<and> force_circular s0 = force_circular s
    \<and> hetero_chromosome s0 = hetero_chromosome s \<and> use_alignment_cov s0 = use_alignment_cov s
    \<and> components s0 = components s"
    using summarize_alignment_fields [of G f "alignment s" "s\<lparr>read_paths_counter := Map.empty\<rparr>" "[]"]
    by (simp add: sm)
  from assms sm have "s1 = (foldl apply_index_call s0 (all_index_calls G (read_paths s0)))
      \<lparr>local_max_alignment_len := Some (last (sort ls)), read_paths_counter_indexed := True\<rparr>"
    by (cases ls) (simp_all add: index_readpaths_subpaths_def)
  then show ?thesis
    using apply_index_calls_fields [of s0 "all_index_calls G (read_paths s0)"] s0 by simp
qed

lemma index_readpaths_subpaths_returns:
  assumes "kept_records G f (alignment s) \<noteq> []"
  shows "\<exists>s1. index_readpaths_subpaths G f s = Inr s1"
proof -
  obtain s0 ls where sm:
    "summarize_alignment G f (alignment s) (s\<lparr>read_paths_counter := Map.empty\<rparr>, []) = (s0, ls)"
    by (cases "summarize_alignment G f (alignment s) (s\<lparr>read_paths_counter := Map.empty\<rparr>, [])")
  have "ls = map p_align_len (kept_records G f (alignment s))"
    using summarize_alignment_lengths [of G f "alignment s" "s\<lparr>read_paths_counter := Map.empty\<rparr>" "[]"]
    by (simp add: sm)
  with assms have "ls \<noteq> []" by simp
  then show ?thesis
    by (cases ls) (simp_all add: index_readpaths_subpaths_def sm)
qed

lemma prepare_generation_fields:
  assumes "prepare_generation G s = Inr s1"
  shows "num_search s1 = num_search s \<and> force_circular s1 = force_circular s
    \<and> hetero_chromosome s1 = hetero_chromosome s \<and> components s1 = components s"
proof (cases "read_paths_counter_indexed s")
  case True
  with assms show ?thesis
    by (auto simp: prepare_generation_def py_bind_def use_contig_coverage_from_assembly_graph_def
        estimate_contig_coverages_from_read_paths_def split: if_splits)
next
  case False
  with assms obtain s0 where ix: "index_readpaths_subpaths G True s = Inr s0"
    and s1: "s1 = (if use_alignment_cov s0 then estimate_contig_coverages_from_read_paths G s0
                   else use_contig_coverage_from_assembly_graph G s0)"
    by (auto simp: prepare_generation_def py_bind_def split: sum.splits)
  show ?thesis
    using index_readpaths_subpaths_fields [OF ix]
    by (simp add: s1 use_contig_coverage_from_assembly_graph_def
        estimate_contig_coverages_from_read_paths_def)
qed

lemma dead_end_never_valid:
  "force_circular s \<Longrightarrow> invalid_search dead_end_graph s (dead_end_traversal k)"
  by (simp add: invalid_search_def dead_end_graph_def spec_assembly_def dead_end_traversal_def
      spec_is_circular_path_def spec_neighbors_def dead_end_vertices_def)

text \<open>
  Claim C7 says that the generation loop stops after a bounded number of attempts and
  reports BudgetExhausted when no valid walk can be produced. The loop of the source has
  no such bound: on the dead-end graph with \<open>force_circular\<close>, where every traversal
  returns the linear walk, the generation does not return.
\<close>

theorem generation_loop_counterexample:
  "generate_heuristic_components dead_end_graph dead_end_traversal no_reseed
     (init_generator [\<lparr>gaf_path = [(''a'', True), (''b'', True), (''c'', True)], p_align_len = 250\<rparr>]
        10 True True False) = None"
proof -
  let ?s = "init_generator [\<lparr>gaf_path = [(''a'', True), (''b'', True), (''c'', True)], p_align_len = 250\<rparr>]
        10 True True False"
  have "spec_contain_path dead_end_vertices (spec_standardize_path [(''a'', True), (''b'', True), (''c'', True)])"
    by (simp add: spec_standardize_path_def spec_reverse_path_def dead_end_vertices_def
        spec_neighbors_def)
  then have "kept_records dead_end_graph True (alignment ?s) \<noteq> []"
    by (simp add: kept_records_def init_generator_def dead_end_graph_def spec_assembly_def)
  then obtain s0 where "index_readpaths_subpaths dead_end_graph True ?s = Inr s0"
    using index_readpaths_subpaths_returns by blast
  then obtain s1 where prep: "prepare_generation dead_end_graph ?s = Inr s1"
    by (simp add: prepare_generation_def py_bind_def init_generator_def)
  have fields: "force_circular s1" "num_search s1 = 10"
    using prepare_generation_fields [OF prep] by (simp_all add: init_generator_def)
  have "uni_loop dead_end_graph dead_end_traversal no_reseed (0, 0, s1) = None"
  proof (cases "uni_loop dead_end_graph dead_end_traversal no_reseed (0, 0, s1)")
    case None
    then show ?thesis .
  next
    case (Some y)
    from uni_loop_invalid_never_returns [OF Some] fields dead_end_never_valid [of s1]
    show ?thesis by simp
  qed
  then show ?thesis
    by (simp add: generate_heuristic_components_def prep gen_heuristic_paths_uni_def)
qed


text \<open>
  Claim C7, amended. On an input on which every traversal is invalid (for example a walk
  that does not circularise under \<open>force_circular\<close>) and with \<open>num_search\<close> at least 1,
  the generation loop never returns: it ends only when \<open>count_valid\<close> reaches
  \<open>num_search\<close>, there is no bound on the number of traversals and no report of an
  exhausted budget.
\<close>

theorem generation_never_ends_without_valid_walk:
  assumes "\<forall>k. invalid_search G s (traversal k)" and "0 < num_search s"
  shows "gen_heuristic_paths_uni G traversal reseed s = None"
proof -
  have "uni_loop G traversal reseed (0, 0, s) = None"
  proof (cases "uni_loop G traversal reseed (0, 0, s)")
    case None
    then show ?thesis .
  next
    case (Some y)
    from uni_loop_invalid_never_returns [OF Some] assms show ?thesis by simp
  qed
  then show ?thesis by (simp add: gen_heuristic_paths_uni_def)
qed

theorem generation_never_ends_without_valid_walk_witness:
  "gen_heuristic_paths_uni dead_end_graph dead_end_traversal no_reseed
     (init_generator [] 10 True True False) = None"
proof (rule generation_never_ends_without_valid_walk)
  show "\<forall>k. invalid_search dead_end_graph (init_generator [] 10 True True False)
              (dead_end_traversal k)"
    by (simp add: dead_end_never_valid init_generator_def)
  show "0 < num_search (init_generator [] 10 True True False)"
    by (simp add: init_generator_def)
qed



lemma prepare_generation_coverages:
  assumes "prepare_generation G s = Inr s1"
  shows "contig_coverages s1 =
     (if use_alignment_cov s
      then map (\<lambda>v_name. (v_name, real (count_list (map fst (concat (read_paths s1))) v_name)))
             (vertex_names G)
      else map (\<lambda>(v_name, v). (v_name, cov v)) (vertex_info G))"
proof (cases "read_paths_counter_indexed s")
  case True
  with assms show ?thesis
    by (auto simp: prepare_generation_def py_bind_def use_contig_coverage_from_assembly_graph_def
        estimate_contig_coverages_from_read_paths_def split: if_splits)
next
  case False
  with assms obtain s0 where ix: "index_readpaths_subpaths G True s = Inr s0"
    and s1: "s1 = (if use_alignment_cov s0 then estimate_contig_coverages_from_read_paths G s0
                   else use_contig_coverage_from_assembly_graph G s0)"
    by (auto simp: prepare_generation_def py_bind_def split: sum.splits)
  show ?thesis
    using index_readpaths_subpaths_fields [OF ix]
    by (simp add: s1 use_contig_coverage_from_assembly_graph_def
        estimate_contig_coverages_from_read_paths_def)
qed

text \<open>
  Claim C8. A generation run assigns \<open>contig_coverages\<close> once, after the index is built
  and before the first traversal: to one entry for every segment of the graph, in the order
  of \<open>vertex_info\<close>, with a non-negative number (the coverage of the graph, which the
  data model takes to be non-negative, or a count of occurrences in the read paths). No
  pass through the loop changes it, so the generator that is returned holds the same
  dictionary. The coverage accessors, the multiplicity likelihood and the extension step
  are functions of that dictionary and return no generator.
\<close>

theorem contig_coverages_populated_and_kept:
  assumes prep: "prepare_generation G s = Inr s1"
    and nonneg: "\<forall>(v_name, v) \<in> set (vertex_info G). 0 \<le> cov v"
  shows "map fst (contig_coverages s1) = vertex_names G
    \<and> (\<forall>(v_name, c) \<in> set (contig_coverages s1). 0 \<le> c)
    \<and> (\<forall>n st'. uni_run n G traversal reseed (0, 0, s1) = Inr st'
          \<longrightarrow> contig_coverages (snd (snd st')) = contig_coverages s1)
    \<and> (\<forall>s'. generate_heuristic_components G traversal reseed s = Some (Inr s')
          \<longrightarrow> contig_coverages s' = contig_coverages s1)"
proof (intro conjI allI impI)
  show "map fst (contig_coverages s1) = vertex_names G"
    by (auto simp: prepare_generation_coverages [OF prep] vertex_names_def o_def split_def)
  show "\<forall>(v_name, c) \<in> set (contig_coverages s1). 0 \<le> c"
    using nonneg by (auto simp: prepare_generation_coverages [OF prep])
next
  fix n st' assume "uni_run n G traversal reseed (0, 0, s1) = Inr st'"
  from uni_run_frame [OF this]
  show "contig_coverages (snd (snd st')) = contig_coverages s1" by simp
next
  fix s' assume "generate_heuristic_components G traversal reseed s = Some (Inr s')"
  then have gen: "map_option (map_sum id (\<lambda>st. snd (snd st)))
                    (uni_loop G traversal reseed (0, 0, s1)) = Some (Inr s')"
    by (simp add: generate_heuristic_components_def prep gen_heuristic_paths_uni_def)
  then obtain res where res: "uni_loop G traversal reseed (0, 0, s1) = Some res"
    and m: "map_sum id (\<lambda>st. snd (snd st)) res = Inr s'"
    by (cases "uni_loop G traversal reseed (0, 0, s1)") auto
  from m obtain st' where "res = Inr st'" and s': "s' = snd (snd st')"
    by (cases res) auto
  with res have loop: "uni_loop G traversal reseed (0, 0, s1) = Some (Inr st')"
    by simp
  from uni_loop_is_run [OF loop] obtain n where "uni_run n G traversal reseed (0, 0, s1) = Inr st'" ..
  from uni_run_frame [OF this] show "contig_coverages s' = contig_coverages s1"
    by (simp add: s')
qed

theorem contig_coverages_populated_and_kept_witness:
  "\<exists>s1. prepare_generation loop_graph
            (init_generator [\<lparr>gaf_path = [(''a'', True), (''b'', True)], p_align_len = 150\<rparr>]
               1 True True False) = Inr s1
     \<and> contig_coverages s1 = [(''a'', 30), (''b'', 30)]
     \<and> map fst (contig_coverages s1) = vertex_names loop_graph"
proof -
  let ?s = "init_generator [\<lparr>gaf_path = [(''a'', True), (''b'', True)], p_align_len = 150\<rparr>]
               1 True True False"
  have "spec_contain_path loop_vertices (spec_standardize_path [(''a'', True), (''b'', True)])"
    by (simp add: spec_standardize_path_def spec_reverse_path_def loop_vertices_def
        spec_neighbors_def)
  then have "kept_records loop_graph True (alignment ?s) \<noteq> []"
    by (simp add: kept_records_def init_generator_def loop_graph_def spec_assembly_def)
  then obtain s0 where "index_readpaths_subpaths loop_graph True ?s = Inr s0"
    using index_readpaths_subpaths_returns by blast
  then obtain s1 where prep: "prepare_generation loop_graph ?s = Inr s1"
    by (simp add: prepare_generation_def py_bind_def init_generator_def)
  have nonneg: "\<forall>(v_name, v) \<in> set (vertex_info loop_graph). 0 \<le> cov v"
    by (simp add: loop_graph_def spec_assembly_def loop_vertices_def)
  have cc: "contig_coverages s1 = [(''a'', 30), (''b'', 30)]"
    using prepare_generation_coverages [OF prep]
    by (simp add: init_generator_def loop_graph_def spec_assembly_def loop_vertices_def)
  from contig_coverages_populated_and_kept [OF prep nonneg]
  have "map fst (contig_coverages s1) = vertex_names loop_graph" by blast
  with prep cc show ?thesis by blast
qed

section \<open>Properties of the traverser\<close>

lemma own_counts_known:
  "\<forall>(v_name, v_end) \<in> set e. count_list vs v_name \<noteq> 0 \<Longrightarrow> \<exists>d. own_counts vs e acc = Some d"
  by (induction e arbitrary: acc) (auto simp: Let_def)

lemma acceptance_loop_find:
  assumes "length L = m" "k \<le> m"
  shows "acceptance_loop (rev (take k L)) (m - k) (ratio_at L (k + 1)) rand m
       = map_option int (find (\<lambda>i. prefix_passes L i (rand (m - i))) (rev [1..<k + 1]))"
  using assms(2)
proof (induction k)
  case 0
  then show ?case by simp
next
  case (Suc k)
  then have k: "k < m" by simp
  have tk: "rev (take (Suc k) L) = L ! k # rev (take k L)"
    using k assms(1) by (simp add: take_Suc_conv_app_nth)
  have cur: "ratio_at L (Suc k) = L ! k"
    using k assms(1) by (simp add: ratio_at_def)
  have pass: "draw_exceeds (L ! k) (ratio_at L (Suc k + 1)) (rand (m - Suc k))
      = prefix_passes L (Suc k) (rand (m - Suc k))"
    by (simp add: draw_exceeds_def prefix_passes_def cur)
  have go: "Suc (m - Suc k) = m - k" using k by simp
  have val: "int m - int (m - Suc k) = int (Suc k)" using k by simp
  have "acceptance_loop (rev (take (Suc k) L)) (m - Suc k) (ratio_at L (Suc k + 1)) rand m
      = (if draw_exceeds (L ! k) (ratio_at L (Suc k + 1)) (rand (m - Suc k))
         then Some (int m - int (m - Suc k))
         else acceptance_loop (rev (take k L)) (Suc (m - Suc k)) (L ! k) rand m)"
    by (simp only: tk acceptance_loop.simps)
  also have "\<dots> = (if prefix_passes L (Suc k) (rand (m - Suc k)) then Some (int (Suc k))
         else acceptance_loop (rev (take k L)) (m - k) (L ! k) rand m)"
    by (simp only: pass go val)
  also have "L ! k = ratio_at L (k + 1)"
    using cur by simp
  finally have lhs: "acceptance_loop (rev (take (Suc k) L)) (m - Suc k) (ratio_at L (Suc k + 1)) rand m
      = (if prefix_passes L (Suc k) (rand (m - Suc k)) then Some (int (Suc k))
         else acceptance_loop (rev (take k L)) (m - k) (ratio_at L (k + 1)) rand m)" .
  have rhs: "map_option int (find (\<lambda>i. prefix_passes L i (rand (m - i))) (rev [1..<Suc k + 1]))
      = (if prefix_passes L (Suc k) (rand (m - Suc k)) then Some (int (Suc k))
         else map_option int (find (\<lambda>i. prefix_passes L i (rand (m - i))) (rev [1..<k + 1])))"
    by simp
  from Suc.prems have "k \<le> m" by simp
  from Suc.IH [OF this] show ?case
    by (simp only: lhs rhs)
qed


text \<open>
  Claim C1. In the multiplicity check, for a non-empty proposed extension \<open>e\<close> of length
  \<open>m\<close> whose segments all occur in the walk already (otherwise the whole extension is
  accepted before any draw) and a likelihood-ratio vector \<open>L\<close> of length \<open>m\<close>, the loop
  goes from \<open>i = m\<close> down to 1 and tests the draw
  \<open>(L[i] - L[i + 1]) / (1 - L[i + 1])\<close>, with \<open>L[m + 1] = 0\<close>, against the next value of
  \<open>random()\<close>. At the first \<open>i\<close> that passes, the walk extended by exactly the first \<open>i\<close>
  segments of \<open>e\<close> is handed to the next extension; when none passes, the reversed walk
  is handed on if the reverse end has not been tried, and the walk is returned otherwise.
\<close>

theorem multiplicity_check_acceptance:
  assumes ne: "e \<noteq> []"
    and len: "length L = length e"
    and old: "\<forall>(v_name, v_end) \<in> set e. v_name \<in> fst ` set p"
  shows "heuristic_check_multiplicity G cc logpdf rng p e not_do_reverse None (Some L) =
     Inr (case find (\<lambda>i. prefix_passes L i (rng_random rng (length e - i)))
                    (rev [1..<length e + 1]) of
            Some i \<Rightarrow> ExtendPath (p @ take i e) not_do_reverse
          | None \<Rightarrow> if not_do_reverse then ReturnPath p
                    else ExtendPath (reverse_path G p) True)"
proof -
  have "\<forall>(v_name, v_end) \<in> set e. count_list (map fst p) v_name \<noteq> 0"
    using old by (auto simp: count_list_0_iff)
  then obtain d where d: "own_counts (map fst p) e [] = Some d"
    using own_counts_known by blast
  have loop: "acceptance_loop (rev L) 0 0 (rng_random rng) (length e)
      = map_option int (find (\<lambda>i. prefix_passes L i (rng_random rng (length e - i)))
                             (rev [1..<length e + 1]))"
    using acceptance_loop_find [OF len, of "length e" "rng_random rng"] len
    by (simp add: ratio_at_def)
  show ?thesis
    by (cases "find (\<lambda>i. prefix_passes L i (rng_random rng (length e - i)))
                    (rev [1..<length e + 1])")
       (simp_all add: heuristic_check_multiplicity_def ne d py_bind_def loop py_prefix_def)
qed

theorem multiplicity_check_acceptance_witness:
  "heuristic_check_multiplicity loop_graph [] zero_logpdf example_rng
     [(''a'', True), (''b'', True)] [(''a'', True), (''b'', True)] False None (Some [1 / 2, 1 / 4])
   = Inr (ExtendPath [(''a'', True), (''b'', True), (''a'', True)] False)"
proof -
  have idx: "rev [1..<length [(''a'', True), (''b'', True)] + 1] = [2, 1]"
    by (simp add: upt_rec)
  have p2: "\<not> prefix_passes [1 / 2, 1 / 4] (Suc (Suc 0)) (rng_random example_rng 0)"
    by (simp add: prefix_passes_def ratio_at_def example_rng_def)
  have p1: "prefix_passes [1 / 2, 1 / 4] (Suc 0) (rng_random example_rng (Suc 0))"
    by (simp add: prefix_passes_def ratio_at_def example_rng_def)
  show ?thesis
    using multiplicity_check_acceptance
      [of "[(''a'', True), (''b'', True)]" "[1 / 2, 1 / 4]" "[(''a'', True), (''b'', True)]"
          loop_graph "[]" zero_logpdf example_rng False]
    by (simp add: idx p2 p1)
qed

text \<open>
  Claim C2 says that with more than one neighbor and \<open>hetero_chromosome\<close> false the next
  segment is sampled among all neighbors. The source samples only when
  \<open>len(next_connections) > 2\<close>: with exactly two connections it takes the first of them,
  as with one, whatever the coverages and the random source are, and passes an empty
  list of cached likelihoods on.
\<close>

theorem two_connections_are_not_sampled:
  assumes "p \<noteq> []"
    and "lookup (vertex_info G) (fst (last p)) = Inr v"
    and "connections v (snd (last p)) = [n1, n2]"
  shows "choose_next_connection G cc logpdf rng hetero cov_inert current_ave_coverage p
         = Inr (Some (n1, []))"
  using assms by (simp add: choose_next_connection_def py_bind_def Let_def py_item_def)

theorem two_connections_are_not_sampled_witness:
  "choose_next_connection fork_graph [(''a'', 30), (''b'', 30), (''c'', 60)] zero_logpdf
     example_rng False 0 30 [(''a'', True)] = Inr (Some ((''b'', False), []))
   \<and> extend_by_graph fork_graph [(''a'', 30), (''b'', 30), (''c'', 60)] zero_logpdf
     example_rng False 0 30 [(''a'', True)] False
     = Inr (ExtendPath [(''a'', True), (''b'', True)] False)"
proof -
  have v: "lookup (vertex_info fork_graph) (fst (last [(''a'', True)]))
      = Inr \<lparr>len = 100, cov = 30,
              connections = (\<lambda>e. if e then [(''b'', False), (''c'', False)] else [])\<rparr>"
    by (simp add: lookup_def fork_graph_def spec_assembly_def fork_vertices_def)
  have first: "choose_next_connection fork_graph [(''a'', 30), (''b'', 30), (''c'', 60)] zero_logpdf
     example_rng False 0 30 [(''a'', True)] = Inr (Some ((''b'', False), []))"
    by (rule two_connections_are_not_sampled [OF _ v]) simp_all
  show ?thesis
    by (simp add: first extend_by_graph_def py_bind_def heuristic_check_multiplicity_def Let_def)
qed

end
